theory Spec2Isabelle
  imports Complex_Main "HOL-Library.AList"
begin

section \<open>Text\<close>

text \<open>
  Message bodies are Python \<open>str\<close> values. They are modelled as strings of
  8-bit characters holding the UTF-8 encoding of the text, so the rupee glyph
  (U+20B9) of the money pattern is the byte sequence \<open>E2 82 B9\<close>. On ASCII text
  the character classes and the case mapping below are those of Python's
  \<open>str.lower\<close>, \<open>str.strip\<close> and of \<open>re\<close> with its \<open>\d\<close>, \<open>\s\<close> and \<open>\w\<close>
  classes; the Unicode digits, spaces and case pairs outside ASCII are not
  part of the model.
\<close>

definition ascii_upper :: string where
  "ascii_upper = ''ABCDEFGHIJKLMNOPQRSTUVWXYZ''"

definition ascii_lower :: string where
  "ascii_lower = ''abcdefghijklmnopqrstuvwxyz''"

definition ascii_digits :: string where
  "ascii_digits = ''0123456789''"

definition ascii_space :: string where
  "ascii_space = [CHR '' '', CHR 0x09, CHR 0x0A, CHR 0x0B, CHR 0x0C, CHR 0x0D,
                  CHR 0x1C, CHR 0x1D, CHR 0x1E, CHR 0x1F]"

definition is_digit :: "char \<Rightarrow> bool" where
  "is_digit c = (c \<in> set ascii_digits)"

definition is_space :: "char \<Rightarrow> bool" where
  "is_space c = (c \<in> set ascii_space)"

definition is_alpha :: "char \<Rightarrow> bool" where
  "is_alpha c = (c \<in> set (ascii_upper @ ascii_lower))"

definition is_word :: "char \<Rightarrow> bool" where
  "is_word c = (is_alpha c \<or> is_digit c \<or> c = CHR ''_'')"

definition lower_char :: "char \<Rightarrow> char" where
  "lower_char c = (case map_of (zip ascii_upper ascii_lower) c of Some d \<Rightarrow> d | None \<Rightarrow> c)"

definition lower :: "string \<Rightarrow> string" where
  "lower s = map lower_char s"

text \<open>\<open>p in s\<close> on strings: \<open>p\<close> occurs in \<open>s\<close> as a contiguous run.\<close>

fun starts_with :: "string \<Rightarrow> string \<Rightarrow> bool" where
  "starts_with [] s = True"
| "starts_with (p # ps) [] = False"
| "starts_with (p # ps) (c # cs) = (p = c \<and> starts_with ps cs)"

fun py_in :: "string \<Rightarrow> string \<Rightarrow> bool" where
  "py_in p [] = (p = [])"
| "py_in p (c # cs) = (starts_with p (c # cs) \<or> py_in p cs)"

text \<open>\<open>s.strip()\<close>: white space removed at both ends.\<close>

definition strip :: "string \<Rightarrow> string" where
  "strip s = rev (dropWhile is_space (rev (dropWhile is_space s)))"

text \<open>\<open>s.replace(',', '')\<close>.\<close>

definition remove_commas :: "string \<Rightarrow> string" where
  "remove_commas s = filter (\<lambda>c. c \<noteq> CHR '','') s"

text \<open>\<open>clean_text\<close>: \<open>re.sub(r'[^\w\s]', '', str(text)).lower()\<close>.\<close>

definition clean_text :: "string \<Rightarrow> string" where
  "clean_text text = lower (filter (\<lambda>c. is_word c \<or> is_space c) text)"

section \<open>Extraction: \<open>parse_transaction_details\<close>\<close>

text \<open>
  The money pattern is \<open>(?i)(INR|Rs\.?|<rupee>)\s?(\d+[,.]?\d*)\<close>. At one
  position the three markers exclude each other by their first character, and
  neither the optional dot nor the optional space can be given back to let the
  rest match (a dot or a space is not a digit), so the greedy reading below is
  the only match \<open>re\<close> can find at that position. \<open>re.search\<close> takes the
  leftmost position that matches.
\<close>

definition rupee_glyph :: string where
  "rupee_glyph = [CHR 0xE2, CHR 0x82, CHR 0xB9]"

definition match_marker :: "string \<Rightarrow> string option" where
  "match_marker s =
     (if starts_with ''inr'' (lower (take 3 s)) then Some (drop 3 s)
      else if starts_with ''rs'' (lower (take 2 s)) then
        (case drop 2 s of
           c # cs \<Rightarrow> if c = CHR ''.'' then Some cs else Some (c # cs)
         | [] \<Rightarrow> Some [])
      else if starts_with rupee_glyph s then Some (drop 3 s)
      else None)"

definition skip_opt_space :: "string \<Rightarrow> string" where
  "skip_opt_space s = (case s of c # cs \<Rightarrow> if is_space c then cs else c # cs | [] \<Rightarrow> [])"

text \<open>Group 2, \<open>\d+[,.]?\d*\<close>, at the start of \<open>s\<close>.\<close>

definition match_number :: "string \<Rightarrow> string option" where
  "match_number s =
     (let d1 = takeWhile is_digit s; r1 = dropWhile is_digit s in
      if d1 = [] then None
      else (case r1 of
              c # cs \<Rightarrow>
                if c = CHR '','' \<or> c = CHR ''.'' then Some (d1 @ [c] @ takeWhile is_digit cs)
                else Some d1
            | [] \<Rightarrow> Some d1))"

definition money_match_at :: "string \<Rightarrow> string option" where
  "money_match_at s =
     (case match_marker s of
        None \<Rightarrow> None
      | Some r \<Rightarrow> match_number (skip_opt_space r))"

fun money_search :: "string \<Rightarrow> string option" where
  "money_search [] = money_match_at []"
| "money_search (c # cs) =
     (case money_match_at (c # cs) of
        Some g \<Rightarrow> Some g
      | None \<Rightarrow> money_search cs)"

text \<open>
  The recipient pattern is \<open>to\s([A-Za-z\s]+)\<close> under \<open>re.IGNORECASE\<close>; group 1 is
  the longest run of letters and spaces after the first \<open>to\<close> that is followed
  by a space and by at least one such character.
\<close>

definition recipient_match_at :: "string \<Rightarrow> string option" where
  "recipient_match_at s =
     (case s of
        t # o' # sp # rest \<Rightarrow>
          if lower_char t = CHR ''t'' \<and> lower_char o' = CHR ''o'' \<and> is_space sp then
            (let g = takeWhile (\<lambda>c. is_alpha c \<or> is_space c) rest in
             if g = [] then None else Some g)
          else None
      | _ \<Rightarrow> None)"

fun recipient_search :: "string \<Rightarrow> string option" where
  "recipient_search [] = None"
| "recipient_search (c # cs) =
     (case recipient_match_at (c # cs) of
        Some g \<Rightarrow> Some g
      | None \<Rightarrow> recipient_search cs)"

definition parse_transaction_details :: "string \<Rightarrow> string \<times> string \<times> string" where
  "parse_transaction_details body =
     (let amount = (case money_search body of Some g \<Rightarrow> remove_commas g | None \<Rightarrow> ''0'');
          recipient = (case recipient_search body of Some g \<Rightarrow> strip g | None \<Rightarrow> ''N/A'');
          transaction_type =
            (if py_in ''credited'' (lower body) \<or> py_in ''received'' (lower body) then ''credited''
             else if py_in ''debited'' (lower body) \<or> py_in ''sent'' (lower body) then ''debited''
             else ''N/A'')
      in (amount, recipient, transaction_type))"

section \<open>Classification: \<open>classify_transaction\<close>\<close>

datatype py_error = ValueError | KeyError | ZeroDivisionError | RuntimeFailure

text \<open>
  The fitted vectorizer, model and label encoder are one black box: a function
  from the cleaned text to the predicted label, or to the exception that
  \<open>transform\<close>, \<open>predict\<close> or \<open>inverse_transform\<close> raises. \<open>None\<close> is the
  untrained state \<open>self.model is None\<close>.
\<close>

type_synonym classifier = "(string \<Rightarrow> py_error + string) option"

text \<open>\<open>try: body except Exception: handler\<close>.\<close>

definition try_except :: "py_error + 'a \<Rightarrow> (py_error \<Rightarrow> py_error + 'a) \<Rightarrow> py_error + 'a" where
  "try_except body handler = (case body of Inl e \<Rightarrow> handler e | Inr v \<Rightarrow> Inr v)"

definition classify_transaction :: "classifier \<Rightarrow> string \<Rightarrow> string \<Rightarrow> py_error + string" where
  "classify_transaction model body transaction_type =
     (case model of
        None \<Rightarrow> Inr ''Miscellaneous''
      | Some predict \<Rightarrow>
          if transaction_type = ''N/A'' then Inr ''Miscellaneous''
          else try_except
                 (case predict (clean_text body) of
                    Inl e \<Rightarrow> Inl e
                  | Inr category \<Rightarrow>
                      Inr (if lower transaction_type = ''credited'' then ''Savings & Transfers''
                           else category))
                 (\<lambda>e. Inr ''Miscellaneous''))"

section \<open>Numbers and dictionaries\<close>

text \<open>
  Amounts are Python floats: IEEE 754 binary64 numbers. A float is modelled by
  the real number it stands for. The operations that the stored amounts go
  through round as the code does: the conversion of a decimal string, the
  addition of two floats and \<open>round(x, 2)\<close> each return the double nearest to
  the exact result, a tie going to the even neighbour. Infinities and NaN are
  not modelled, so the model covers magnitudes below \<open>2 ^ 1024\<close>. The budget
  formulas (\<open>set_budget_constraints\<close>, \<open>calculate_savings_potential\<close>,
  \<open>allocate_savings_to_goals\<close>) are taken in exact arithmetic.
\<close>

text \<open>The number of binary digits of \<open>n\<close>.\<close>

fun bit_length :: "nat \<Rightarrow> nat" where
  "bit_length n = (if n = 0 then 0 else Suc (bit_length (n div 2)))"

definition pow2 :: "int \<Rightarrow> real" where
  "pow2 e = (if 0 \<le> e then 2 ^ nat e else 1 / 2 ^ nat (- e))"

text \<open>The binary exponent of \<open>x > 0\<close>: the \<open>e\<close> with \<open>2 ^ e \<le> x < 2 ^ (e + 1)\<close>.\<close>

definition binade :: "real \<Rightarrow> int" where
  "binade x =
     (if 1 \<le> x then int (bit_length (nat \<lfloor>x\<rfloor>)) - 1
      else (let k = int (bit_length (nat \<lfloor>1 / x\<rfloor>)) in
            if x * pow2 (k - 1) = 1 then 1 - k else - k))"

definition round_half_even :: "real \<Rightarrow> int" where
  "round_half_even y =
     (let f = \<lfloor>y\<rfloor>; d = y - of_int f in
      if d < 1 / 2 then f else if 1 / 2 < d then f + 1 else if even f then f else f + 1)"

text \<open>
  The double nearest to \<open>x\<close>: a significand of 53 binary digits, or, below
  \<open>2 ^ - 1022\<close>, a multiple of \<open>2 ^ - 1074\<close>.
\<close>

definition to_double :: "real \<Rightarrow> real" where
  "to_double x =
     (if x = 0 then 0
      else (let e = max (binade \<bar>x\<bar>) (- 1022) - 52 in
            sgn x * (of_int (round_half_even (\<bar>x\<bar> / pow2 e)) * pow2 e)))"

text \<open>\<open>a + b\<close> on floats.\<close>

definition float_add :: "real \<Rightarrow> real \<Rightarrow> real" where
  "float_add a b = to_double (a + b)"

text \<open>
  \<open>round(x, 2)\<close> on a float: the exact value of \<open>x\<close> is rounded to two decimal
  places, a tie going to the even neighbour, and the double nearest to that
  decimal number is returned.
\<close>

definition py_round2 :: "real \<Rightarrow> real" where
  "py_round2 x = to_double (of_int (round_half_even (x * 100)) / 100)"

text \<open>
  A stored amount is read through \<open>float(...)\<close>: either it converts to a number
  or the conversion raises.
\<close>

datatype stored_amount = Num real | NotNumeric

definition py_float :: "stored_amount \<Rightarrow> py_error + real" where
  "py_float v = (case v of Num r \<Rightarrow> Inr r | NotNumeric \<Rightarrow> Inl ValueError)"

text \<open>
  \<open>float(s)\<close> on the amount strings of \<open>parse_transaction_details\<close>: ASCII
  digits, then possibly a dot and more digits; the result is the double nearest
  to the decimal number. Other strings do not arise there (lemma
  \<open>parsed_amount_is_float\<close>) and are answered with \<open>ValueError\<close>.
\<close>

definition digit_val :: "char \<Rightarrow> nat" where
  "digit_val c = length (takeWhile (\<lambda>d. d \<noteq> c) ascii_digits)"

definition digits_value :: "string \<Rightarrow> nat" where
  "digits_value ds = foldl (\<lambda>n c. 10 * n + digit_val c) 0 ds"

definition py_float_str :: "string \<Rightarrow> py_error + real" where
  "py_float_str s =
     (let d1 = takeWhile is_digit s; r = dropWhile is_digit s in
      if d1 = [] then Inl ValueError
      else (case r of
              [] \<Rightarrow> Inr (to_double (real (digits_value d1)))
            | c # d2 \<Rightarrow>
                if c = CHR ''.'' \<and> list_all is_digit d2
                then Inr (to_double
                            (real (digits_value d1) + real (digits_value d2) / 10 ^ length d2))
                else Inl ValueError))"

text \<open>
  A Python \<open>dict\<close> is an association list in insertion order with distinct
  keys. \<open>d[k] = v\<close> is \<open>AList.update k v d\<close> (an existing key keeps its place, a
  new key goes to the end), \<open>d.get(k, default)\<close> is \<open>dict_get\<close>, and iterating
  over a dict visits its items in order.
\<close>

definition dict_get :: "('k \<times> 'v) list \<Rightarrow> 'k \<Rightarrow> 'v \<Rightarrow> 'v" where
  "dict_get d k dflt = (case map_of d k of Some v \<Rightarrow> v | None \<Rightarrow> dflt)"

section \<open>Stored documents\<close>

type_synonym ident = nat

record raw_sms =
  sms_id :: ident
  raw_body :: "string option"
  raw_address :: "string option"
  raw_readable_date :: "string option"

record transaction =
  doc_id :: ident
  Date :: string
  Address :: string
  Amount :: "stored_amount option"
  Recipient :: string
  Transaction_Type :: "string option"
  Body :: string

record categorized = transaction +
  Category :: "string option"
  Verified :: bool

record manual_entry =
  manual_id :: ident
  expenseName :: "string option"
  expenseAmount :: "stored_amount option"

record category_total =
  chart_id :: string
  chart_category :: string
  chart_value :: real


record recommendation =
  rec_id :: string
  rec_category :: string
  rec_current :: real
  rec_recommended :: real

section \<open>Budget analysis: \<open>BudgetAnalyzer\<close>\<close>

definition excluded_categories :: "string set" where
  "excluded_categories = {''Healthcare'', ''Education'', ''Essentials''}"

definition reducible_categories :: "(string \<times> real) list" where
  "reducible_categories =
     [(''Entertainment & Lifestyle'', 8 / 10),
      (''Food & Dining'', 9 / 10),
      (''Shopping'', 8 / 10),
      (''Miscellaneous'', 7 / 10),
      (''Subscriptions & Services'', 9 / 10),
      (''Travel & Transportation'', 9 / 10)]"

definition set_budget_constraints :: "(string \<times> real) list \<Rightarrow> (string \<times> real) list" where
  "set_budget_constraints monthly_spending =
     fold (\<lambda>(category, amount) constraints.
             if category \<in> excluded_categories then constraints
             else AList.update category (amount * dict_get reducible_categories category 1) constraints)
          monthly_spending []"

definition savings_per_category ::
  "(string \<times> real) list \<Rightarrow> (string \<times> real) list \<Rightarrow> (string \<times> real) list" where
  "savings_per_category monthly_spending budget_constraints =
     fold (\<lambda>(cat, amount) savings.
             if cat \<in> excluded_categories then savings
             else AList.update cat (amount - dict_get budget_constraints cat amount) savings)
          monthly_spending []"

definition calculate_savings_potential ::
  "(string \<times> real) list \<Rightarrow> (string \<times> real) list \<Rightarrow> real" where
  "calculate_savings_potential monthly_spending budget_constraints =
     sum_list (map snd (savings_per_category monthly_spending budget_constraints))"








text \<open>
  \<open>get_current_spending\<close>: \<open>item["Transaction Type"]\<close> and \<open>item["Category"]\<close>
  raise \<open>KeyError\<close> on a document without the field; the conversion of the
  amount is inside \<open>try\<close>, and any failure there skips the document.
\<close>

definition item_amount :: "'a transaction_scheme \<Rightarrow> py_error + real" where
  "item_amount item = (case Amount item of None \<Rightarrow> Inl KeyError | Some v \<Rightarrow> py_float v)"

fun current_spending_loop ::
  "categorized list \<Rightarrow> (string \<times> real) list \<Rightarrow> py_error + (string \<times> real) list" where
  "current_spending_loop [] current = Inr current"
| "current_spending_loop (item # items) current =
     (case Transaction_Type item of
        None \<Rightarrow> Inl KeyError
      | Some ty \<Rightarrow>
          if ty = ''debited'' then
            (case Category item of
               None \<Rightarrow> Inl KeyError
             | Some cat \<Rightarrow>
                 if cat \<in> excluded_categories then current_spending_loop items current
                 else (case item_amount item of
                         Inl e \<Rightarrow> current_spending_loop items current
                       | Inr amt \<Rightarrow>
                           current_spending_loop items
                             (AList.update cat (float_add (dict_get current cat 0) amt) current)))
          else current_spending_loop items current)"

definition get_current_spending :: "categorized list \<Rightarrow> py_error + (string \<times> real) list" where
  "get_current_spending categorized_docs = current_spending_loop categorized_docs []"

text \<open>
  \<open>save_recommendations\<close>: the collection is emptied and one record is inserted
  for each category of \<open>recommended\<close>.
\<close>

definition save_recommendations ::
  "(string \<times> real) list \<Rightarrow> (string \<times> real) list \<Rightarrow> recommendation list" where
  "save_recommendations current recommended =
     map (\<lambda>(category, amount).
            \<lparr>rec_id = category, rec_category = category,
             rec_current = py_round2 (dict_get current category 0),
             rec_recommended = py_round2 amount\<rparr>)
         recommended"

section \<open>Ingestion: \<open>TransactionProcessor\<close>\<close>

definition category_mapping :: "(string \<times> string) list" where
  "category_mapping =
     [(''Essentials'', ''Essentials''),
      (''Food & Dining'', ''Food''),
      (''Shopping'', ''Shopping''),
      (''Entertainment & Lifestyle'', ''Lifestyle''),
      (''Savings & Transfers'', ''Savings''),
      (''Travel & Transportation'', ''Travel''),
      (''Subscriptions & Services'', ''Subscription''),
      (''Miscellaneous'', ''Misc.'')]"

definition transaction_categories :: "string list" where
  "transaction_categories =
     [''debited'', ''credited'', ''sent'', ''received'', ''payment successful'', ''amount sent'']"

definition non_transactional :: "string list" where
  "non_transactional =
     [''offer'', ''promotion'', ''hurry'', ''discount'', ''click here'', ''thanks for recharge'']"

record state =
  raw_collection :: "raw_sms list"
  processed_collection :: "transaction list"
  categorized_collection :: "categorized list"
  manual_collection :: "manual_entry list"
  combined_collection :: "category_total list"
  processed_ids :: "ident set"

definition initialize_processed_ids ::
  "transaction list \<Rightarrow> categorized list \<Rightarrow> manual_entry list \<Rightarrow> ident set" where
  "initialize_processed_ids processed categorized manual =
     set (map doc_id processed) \<union> set (map doc_id categorized) \<union> set (map manual_id manual)"

text \<open>The state of a \<open>TransactionProcessor\<close> after \<open>__init__\<close> on a database.\<close>

definition init_state ::
  "raw_sms list \<Rightarrow> transaction list \<Rightarrow> categorized list \<Rightarrow> manual_entry list \<Rightarrow>
   category_total list \<Rightarrow> state" where
  "init_state raw processed categorized manual combined =
     \<lparr>raw_collection = raw, processed_collection = processed,
      categorized_collection = categorized, manual_collection = manual,
      combined_collection = combined,
      processed_ids = initialize_processed_ids processed categorized manual\<rparr>"

text \<open>
  \<open>update_one({"_id": i}, {"$setOnInsert": doc}, upsert=True)\<close>: a document with
  that id is left as it is; otherwise \<open>doc\<close> is inserted.
\<close>

definition update_one_setOnInsert ::
  "ident \<Rightarrow> 'a transaction_scheme \<Rightarrow> 'a transaction_scheme list \<Rightarrow> 'a transaction_scheme list" where
  "update_one_setOnInsert i doc coll = (if i \<in> set (map doc_id coll) then coll else coll @ [doc])"

text \<open>
  \<open>update_one({"_id": c}, {"$set": {"category": c, "value": v}}, upsert=True)\<close>:
  the first document with that id gets the two fields; with none, one is
  inserted.
\<close>

fun update_one_set :: "string \<Rightarrow> real \<Rightarrow> category_total list \<Rightarrow> category_total list" where
  "update_one_set c v [] = [\<lparr>chart_id = c, chart_category = c, chart_value = v\<rparr>]"
| "update_one_set c v (d # ds) =
     (if chart_id d = c then d\<lparr>chart_category := c, chart_value := v\<rparr> # ds
      else d # update_one_set c v ds)"

definition save_transaction ::
  "string \<Rightarrow> state \<Rightarrow> raw_sms \<Rightarrow> real \<Rightarrow> string \<Rightarrow> string \<Rightarrow> string \<Rightarrow> string \<Rightarrow> state" where
  "save_transaction now s sms amount recipient transaction_type category body =
     (let date = (case raw_readable_date sms of Some d \<Rightarrow> d | None \<Rightarrow> now);
          address = (case raw_address sms of Some a \<Rightarrow> a | None \<Rightarrow> ''Unknown'');
          transaction_data =
            \<lparr>doc_id = sms_id sms, Date = date, Address = address, Amount = Some (Num amount),
             Recipient = recipient, Transaction_Type = Some transaction_type, Body = body\<rparr>;
          s1 = s\<lparr>processed_collection :=
                  update_one_setOnInsert (sms_id sms) transaction_data (processed_collection s)\<rparr>;
          categorized_data =
            \<lparr>doc_id = sms_id sms, Date = date, Address = address, Amount = Some (Num amount),
             Recipient = recipient, Transaction_Type = Some transaction_type, Body = body,
             Category = Some category, Verified = (category \<noteq> ''Miscellaneous'')\<rparr>
      in s1\<lparr>categorized_collection :=
              update_one_setOnInsert (sms_id sms) categorized_data (categorized_collection s1)\<rparr>)"

text \<open>The test of \<open>process_single_sms\<close> under which a message is skipped.\<close>

definition skipped :: "string \<Rightarrow> bool" where
  "skipped sms_body =
     (\<not> list_ex (\<lambda>cat. py_in cat (lower sms_body)) transaction_categories
      \<or> list_ex (\<lambda>non_trans. py_in non_trans (lower sms_body)) non_transactional)"

text \<open>
  \<open>process_single_sms\<close> returns the new state with \<open>False\<close> (skipped), \<open>True\<close>
  (stored) or the exception it raises. \<open>now\<close> is the clock that
  \<open>save_transaction\<close> reads.
\<close>

definition process_single_sms ::
  "classifier \<Rightarrow> string \<Rightarrow> state \<Rightarrow> raw_sms \<Rightarrow> state \<times> (py_error + bool)" where
  "process_single_sms model now s sms =
     (let sms_body = (case raw_body sms of Some b \<Rightarrow> b | None \<Rightarrow> []) in
      if skipped sms_body then (s, Inr False)
      else
        (case parse_transaction_details sms_body of
           (amount, recipient, transaction_type) \<Rightarrow>
             (case (if amount \<noteq> [] then py_float_str amount else Inr 0) of
                Inl e \<Rightarrow> (s, Inl e)
              | Inr amount_float \<Rightarrow>
                  (case classify_transaction model sms_body transaction_type of
                     Inl e \<Rightarrow> (s, Inl e)
                   | Inr category \<Rightarrow>
                       (save_transaction now s sms amount_float recipient transaction_type
                          category sms_body,
                        Inr True)))))"

text \<open>
  The two loops of \<open>update_combined_transactions\<close> differ in the names of the
  fields they read; \<open>accumulate_totals\<close> is their body on the pairs of category
  and amount fields.
\<close>

fun accumulate_totals ::
  "(string option \<times> stored_amount option) list \<Rightarrow> (string \<times> real) list \<Rightarrow>
   py_error + (string \<times> real) list" where
  "accumulate_totals [] category_totals = Inr category_totals"
| "accumulate_totals ((cat_field, amount_field) # docs) category_totals =
     (let original_cat = (case cat_field of Some c \<Rightarrow> c | None \<Rightarrow> ''Miscellaneous'') in
      case map_of category_mapping original_cat of
        None \<Rightarrow> accumulate_totals docs category_totals
      | Some new_cat \<Rightarrow>
          (case (case amount_field of None \<Rightarrow> Inr 0 | Some v \<Rightarrow> py_float v) of
             Inl e \<Rightarrow> Inl e
           | Inr amt \<Rightarrow>
               accumulate_totals docs
                 (AList.update new_cat (float_add (dict_get category_totals new_cat 0) amt)
                    category_totals)))"

definition category_totals ::
  "categorized list \<Rightarrow> manual_entry list \<Rightarrow> py_error + (string \<times> real) list" where
  "category_totals categorized manual =
     (case accumulate_totals (map (\<lambda>doc. (Category doc, Amount doc)) categorized) [] of
        Inl e \<Rightarrow> Inl e
      | Inr totals \<Rightarrow>
          accumulate_totals (map (\<lambda>doc. (expenseName doc, expenseAmount doc)) manual) totals)"

definition update_combined_transactions :: "state \<Rightarrow> state \<times> (py_error + unit)" where
  "update_combined_transactions s =
     (let s0 = s\<lparr>combined_collection := []\<rparr> in
      case category_totals (categorized_collection s0) (manual_collection s0) of
        Inl e \<Rightarrow> (s0, Inl e)
      | Inr totals \<Rightarrow>
          (s0\<lparr>combined_collection :=
                fold (\<lambda>(category, total). update_one_set category (py_round2 total)) totals
                     (combined_collection s0)\<rparr>,
           Inr ()))"

text \<open>The loop over \<open>new_sms\<close> in \<open>process_new_data\<close>.\<close>

fun new_sms_loop ::
  "classifier \<Rightarrow> (ident \<Rightarrow> string) \<Rightarrow> raw_sms list \<Rightarrow> state \<Rightarrow> state \<times> (py_error + unit)" where
  "new_sms_loop model now [] s = (s, Inr ())"
| "new_sms_loop model now (sms # rest) s =
     (case process_single_sms model (now (sms_id sms)) s sms of
        (s1, Inl e) \<Rightarrow> (s1, Inl e)
      | (s1, Inr stored) \<Rightarrow>
          new_sms_loop model now rest
            (if stored then s1\<lparr>processed_ids := insert (sms_id sms) (processed_ids s1)\<rparr> else s1))"

definition process_new_data ::
  "classifier \<Rightarrow> (ident \<Rightarrow> string) \<Rightarrow> state \<Rightarrow> state \<times> (py_error + nat)" where
  "process_new_data model now s =
     (let manual_ids = set (map manual_id (manual_collection s));
          new_manual_ids = manual_ids - processed_ids s in
      case (if new_manual_ids \<noteq> {}
            then update_combined_transactions
                   (s\<lparr>processed_ids := processed_ids s \<union> new_manual_ids\<rparr>)
            else (s, Inr ())) of
        (s1, Inl e) \<Rightarrow> (s1, Inl e)
      | (s1, Inr u) \<Rightarrow>
          (let new_sms = filter (\<lambda>sms. sms_id sms \<notin> processed_ids s1) (raw_collection s1) in
           if new_sms \<noteq> [] then
             (case new_sms_loop model now new_sms s1 of
                (s2, Inl e) \<Rightarrow> (s2, Inl e)
              | (s2, Inr u2) \<Rightarrow>
                  (case update_combined_transactions s2 of
                     (s3, Inl e) \<Rightarrow> (s3, Inl e)
                   | (s3, Inr u3) \<Rightarrow> (s3, Inr (card new_manual_ids + length new_sms))))
           else (s1, Inr (card new_manual_ids + length new_sms))))"

text \<open>
  \<open>process_manual_entries\<close> and \<open>process_sms_messages\<close>, the two steps of the
  polling loop \<open>process_transactions\<close>.
\<close>

definition process_manual_entries :: "state \<Rightarrow> state \<times> (py_error + unit)" where
  "process_manual_entries s =
     update_combined_transactions
       (s\<lparr>processed_ids := processed_ids s \<union> set (map manual_id (manual_collection s))\<rparr>)"

fun sms_messages_loop ::
  "classifier \<Rightarrow> (ident \<Rightarrow> string) \<Rightarrow> raw_sms list \<Rightarrow> bool \<Rightarrow> state \<Rightarrow>
   (state \<times> bool) \<times> (py_error + unit)" where
  "sms_messages_loop model now [] new_sms_processed s = ((s, new_sms_processed), Inr ())"
| "sms_messages_loop model now (sms # rest) new_sms_processed s =
     (case process_single_sms model (now (sms_id sms)) s sms of
        (s1, Inl e) \<Rightarrow> ((s1, new_sms_processed), Inl e)
      | (s1, Inr stored) \<Rightarrow>
          (if stored
           then sms_messages_loop model now rest True
                  (s1\<lparr>processed_ids := insert (sms_id sms) (processed_ids s1)\<rparr>)
           else sms_messages_loop model now rest new_sms_processed s1))"

definition process_sms_messages ::
  "classifier \<Rightarrow> (ident \<Rightarrow> string) \<Rightarrow> state \<Rightarrow> state \<times> (py_error + unit)" where
  "process_sms_messages model now s =
     (case sms_messages_loop model now
             (filter (\<lambda>sms. sms_id sms \<notin> processed_ids s) (raw_collection s)) False s of
        ((s1, new_sms_processed), Inl e) \<Rightarrow> (s1, Inl e)
      | ((s1, new_sms_processed), Inr u) \<Rightarrow>
          (if new_sms_processed then update_combined_transactions s1 else (s1, Inr ())))"

text \<open>
  The invariant of the set of processed ids: it holds every id that has a
  stored transaction, categorized transaction or manual entry.
\<close>

definition dedup_invariant :: "state \<Rightarrow> bool" where
  "dedup_invariant s =
     (set (map doc_id (processed_collection s)) \<union> set (map doc_id (categorized_collection s))
        \<union> set (map manual_id (manual_collection s)) \<subseteq> processed_ids s)"

section \<open>Totals, in the words of the specification\<close>

text \<open>The sum of a list of floats, added one after the other to \<open>start\<close>.\<close>

definition float_sum :: "real \<Rightarrow> real list \<Rightarrow> real" where
  "float_sum start amounts = foldl float_add start amounts"

text \<open>
  The amounts, in stored order, of the categorized transactions with direction
  \<open>debited\<close> and category \<open>c\<close>, for a category outside the excluded set; a
  document whose amount does not convert is left out. \<open>debited_total\<close> is their
  sum.
\<close>

definition debited_amounts :: "string \<Rightarrow> categorized list \<Rightarrow> real list" where
  "debited_amounts c docs =
     map (\<lambda>d. case item_amount d of Inr a \<Rightarrow> a | Inl e \<Rightarrow> 0)
       (filter (\<lambda>d. Transaction_Type d = Some ''debited'' \<and> Category d = Some c
                     \<and> c \<notin> excluded_categories
                     \<and> (case item_amount d of Inr a \<Rightarrow> True | Inl e \<Rightarrow> False)) docs)"

definition debited_total :: "string \<Rightarrow> categorized list \<Rightarrow> real" where
  "debited_total c docs = float_sum 0 (debited_amounts c docs)"

text \<open>
  The part of \<open>run_monthly_analysis\<close> that writes the recommendation records,
  once \<open>budget_constraints\<close> is computed: the current spending from the
  categorized transactions, then \<open>save_recommendations\<close>. An exception leaves
  the function before anything is saved.
\<close>

definition monthly_analysis_recommendations ::
  "(string \<times> real) list \<Rightarrow> categorized list \<Rightarrow> py_error + recommendation list" where
  "monthly_analysis_recommendations budget_constraints categorized_docs =
     (case get_current_spending categorized_docs of
        Inl e \<Rightarrow> Inl e
      | Inr current_spending \<Rightarrow> Inr (save_recommendations current_spending budget_constraints))"

text \<open>
  The renamed category of a document (a document without a category counts as
  \<open>Miscellaneous\<close>), its amount (a document without an amount counts with 0),
  and the sum of the amounts, in stored order, of the categorized transactions
  and then the manual entries renamed to bucket \<open>b\<close>.
\<close>

definition renamed :: "string option \<Rightarrow> string option" where
  "renamed cat_field =
     map_of category_mapping (case cat_field of Some c \<Rightarrow> c | None \<Rightarrow> ''Miscellaneous'')"

definition amount_or_zero :: "stored_amount option \<Rightarrow> real" where
  "amount_or_zero amount_field =
     (case amount_field of None \<Rightarrow> 0 | Some v \<Rightarrow> (case py_float v of Inr a \<Rightarrow> a | Inl e \<Rightarrow> 0))"

definition source_fields ::
  "categorized list \<Rightarrow> manual_entry list \<Rightarrow> (string option \<times> stored_amount option) list" where
  "source_fields categorized manual =
     map (\<lambda>doc. (Category doc, Amount doc)) categorized
     @ map (\<lambda>doc. (expenseName doc, expenseAmount doc)) manual"

definition bucket_amounts :: "string \<Rightarrow> (string option \<times> stored_amount option) list \<Rightarrow> real list" where
  "bucket_amounts b fs =
     map (\<lambda>f. amount_or_zero (snd f)) (filter (\<lambda>f. renamed (fst f) = Some b) fs)"

definition bucket_total :: "string \<Rightarrow> (string option \<times> stored_amount option) list \<Rightarrow> real" where
  "bucket_total b fs = float_sum 0 (bucket_amounts b fs)"

definition in_table :: "string option \<times> stored_amount option \<Rightarrow> bool" where
  "in_table f = (renamed (fst f) \<noteq> None)"

definition chart_doc :: "string \<times> real \<Rightarrow> category_total" where
  "chart_doc x = \<lparr>chart_id = fst x, chart_category = fst x, chart_value = py_round2 (snd x)\<rparr>"

section \<open>Ingestion: what a pass may change\<close>

text \<open>The body of a raw message, \<open>sms.get("body", "")\<close>.\<close>

definition body_of :: "raw_sms \<Rightarrow> string" where
  "body_of sms = (case raw_body sms of Some b \<Rightarrow> b | None \<Rightarrow> [])"

text \<open>
  Insert-if-absent, between the contents of a collection before and after:
  every document that was there is still there, unchanged and in its place; the
  documents that came are at the end, with ids that are new and pairwise
  distinct.
\<close>

definition insert_only :: "'a transaction_scheme list \<Rightarrow> 'a transaction_scheme list \<Rightarrow> bool" where
  "insert_only old new =
     (\<exists>ys. new = old @ ys \<and> distinct (map doc_id ys)
           \<and> set (map doc_id ys) \<inter> set (map doc_id old) = {})"

text \<open>The ids that have a stored transaction or categorized transaction.\<close>

definition stored_ids :: "state \<Rightarrow> ident set" where
  "stored_ids s = set (map doc_id (processed_collection s)) \<union> set (map doc_id (categorized_collection s))"

text \<open>
  What a step of the pipeline may do to the state: the raw messages and manual
  entries are only read, the set of processed ids grows, the two transaction
  collections change by insert-if-absent, and every id that is newly stored is
  in the set of processed ids afterwards.
\<close>

definition pass_effect :: "state \<Rightarrow> state \<Rightarrow> bool" where
  "pass_effect s s' =
     (raw_collection s' = raw_collection s \<and> manual_collection s' = manual_collection s
      \<and> processed_ids s \<subseteq> processed_ids s'
      \<and> insert_only (processed_collection s) (processed_collection s')
      \<and> insert_only (categorized_collection s) (categorized_collection s')
      \<and> stored_ids s' \<subseteq> stored_ids s \<union> processed_ids s')"

text \<open>
  A state in which a pass finds nothing to do: every manual entry is marked,
  every raw message that is not marked is one the filter skips, and, if there
  is such a message, the combined collection is up to date.
\<close>

definition settled :: "state \<Rightarrow> bool" where
  "settled s =
     (set (map manual_id (manual_collection s)) \<subseteq> processed_ids s
      \<and> (\<forall>x\<in>set (raw_collection s). sms_id x \<notin> processed_ids s \<longrightarrow> skipped (body_of x))
      \<and> ((\<exists>x\<in>set (raw_collection s). sms_id x \<notin> processed_ids s) \<longrightarrow>
            update_combined_transactions s = (s, Inr ())))"


text \<open>
  The collections of raw messages and manual entries are written from outside
  the pipeline: a message or an entry arrives. The states of a
  \<open>TransactionProcessor\<close> are those reached from \<open>__init__\<close> by such arrivals
  and by the operations of the pipeline, with whatever classifier and clock.
\<close>

definition raw_sms_arrives :: "raw_sms \<Rightarrow> state \<Rightarrow> state" where
  "raw_sms_arrives sms s = s\<lparr>raw_collection := raw_collection s @ [sms]\<rparr>"

definition manual_entry_arrives :: "manual_entry \<Rightarrow> state \<Rightarrow> state" where
  "manual_entry_arrives entry s = s\<lparr>manual_collection := manual_collection s @ [entry]\<rparr>"

inductive reachable :: "state \<Rightarrow> bool" where
  initial: "reachable (init_state raw processed categorized manual combined)"
| raw_arrival: "reachable s \<Longrightarrow> reachable (raw_sms_arrives sms s)"
| manual_arrival: "reachable s \<Longrightarrow> reachable (manual_entry_arrives entry s)"
| new_data: "reachable s \<Longrightarrow> reachable (fst (process_new_data model now s))"
| sms_messages: "reachable s \<Longrightarrow> reachable (fst (process_sms_messages model now s))"
| manual_entries: "reachable s \<Longrightarrow> reachable (fst (process_manual_entries s))"

section \<open>Sample data\<close>

definition sample_docs :: "categorized list" where
  "sample_docs =
     [\<lparr>doc_id = 1, Date = ''2024-01-05'', Address = ''BANK'', Amount = Some (Num 120),
       Recipient = ''Store'', Transaction_Type = Some ''debited'', Body = ''INR 120 debited'',
       Category = Some ''Shopping'', Verified = True\<rparr>,
      \<lparr>doc_id = 2, Date = ''2023-03-09'', Address = ''BANK'', Amount = Some (Num 80),
       Recipient = ''Shop'', Transaction_Type = Some ''debited'', Body = ''INR 80 debited'',
       Category = Some ''Shopping'', Verified = True\<rparr>,
      \<lparr>doc_id = 3, Date = ''2024-01-07'', Address = ''BANK'', Amount = Some (Num 900),
       Recipient = ''N/A'', Transaction_Type = Some ''credited'', Body = ''INR 900 credited'',
       Category = Some ''Savings & Transfers'', Verified = True\<rparr>,
      \<lparr>doc_id = 4, Date = ''2024-01-08'', Address = ''BANK'', Amount = Some NotNumeric,
       Recipient = ''N/A'', Transaction_Type = Some ''debited'', Body = ''debited'',
       Category = Some ''Shopping'', Verified = True\<rparr>]"

definition food_state :: state where
  "food_state =
     \<lparr>raw_collection = [],
      processed_collection = [],
      categorized_collection =
        [\<lparr>doc_id = 1, Date = ''2024-01-05'', Address = ''BANK'', Amount = Some (Num 100),
          Recipient = ''Cafe'', Transaction_Type = Some ''debited'', Body = ''INR 100 debited'',
          Category = Some ''Food & Dining'', Verified = True\<rparr>,
         \<lparr>doc_id = 2, Date = ''2024-01-06'', Address = ''BANK'', Amount = Some (Num 50),
          Recipient = ''Diner'', Transaction_Type = Some ''debited'', Body = ''INR 50 debited'',
          Category = Some ''Food & Dining'', Verified = True\<rparr>,
         \<lparr>doc_id = 3, Date = ''2024-01-07'', Address = ''BANK'', Amount = Some (Num 70),
          Recipient = ''Clinic'', Transaction_Type = Some ''debited'', Body = ''INR 70 debited'',
          Category = Some ''Healthcare'', Verified = True\<rparr>],
      manual_collection = [],
      combined_collection = [\<lparr>chart_id = ''Travel'', chart_category = ''Travel'', chart_value = 9\<rparr>],
      processed_ids = {1, 2, 3}\<rparr>"

definition rounding_docs :: "categorized list" where
  "rounding_docs =
     [\<lparr>doc_id = 7, Date = ''2024-02-01'', Address = ''BANK'', Amount = Some (Num (to_double (10004 / 1000))),
       Recipient = ''Store'', Transaction_Type = Some ''debited'', Body = ''Rs. 10.004 debited'',
       Category = Some ''Shopping'', Verified = True\<rparr>]"

definition rounding_state :: state where
  "rounding_state =
     \<lparr>raw_collection = [], processed_collection = [], categorized_collection = rounding_docs,
      manual_collection = [], combined_collection = [], processed_ids = {7}\<rparr>"


definition tie_state :: state where
  "tie_state =
     \<lparr>raw_collection =
        [\<lparr>sms_id = 5, raw_body = Some ''Rs. 2.675 debited'', raw_address = Some ''VK-BANK'',
          raw_readable_date = Some ''2024-03-03 12:00:00''\<rparr>],
      processed_collection = [], categorized_collection = [], manual_collection = [],
      combined_collection = [], processed_ids = {}\<rparr>"

definition ingest_state :: state where
  "ingest_state =
     \<lparr>raw_collection =
        [\<lparr>sms_id = 1, raw_body = Some ''Rs. 1,500 sent to John Doe'', raw_address = Some ''VK-BANK'',
          raw_readable_date = Some ''2024-03-01 09:30:00''\<rparr>,
         \<lparr>sms_id = 2, raw_body = Some ''Hello, see you at 5'', raw_address = None,
          raw_readable_date = None\<rparr>],
      processed_collection = [],
      categorized_collection = [],
      manual_collection =
        [\<lparr>manual_id = 10, expenseName = Some ''Shopping'', expenseAmount = Some (Num 250)\<rparr>],
      combined_collection = [],
      processed_ids = {}\<rparr>"

definition sample_model :: classifier where
  "sample_model = Some (\<lambda>text. Inr ''Shopping'')"

definition sample_clock :: "ident \<Rightarrow> string" where
  "sample_clock i = ''2024-03-01 10:00:00''"

definition ingest_state_after :: state where
  "ingest_state_after =
     \<lparr>raw_collection = raw_collection ingest_state,
      processed_collection =
        [\<lparr>doc_id = 1, Date = ''2024-03-01 09:30:00'', Address = ''VK-BANK'',
          Amount = Some (Num 1500), Recipient = ''John Doe'',
          Transaction_Type = Some ''debited'', Body = ''Rs. 1,500 sent to John Doe''\<rparr>],
      categorized_collection =
        [\<lparr>doc_id = 1, Date = ''2024-03-01 09:30:00'', Address = ''VK-BANK'',
          Amount = Some (Num 1500), Recipient = ''John Doe'',
          Transaction_Type = Some ''debited'', Body = ''Rs. 1,500 sent to John Doe'',
          Category = Some ''Shopping'', Verified = True\<rparr>],
      manual_collection = manual_collection ingest_state,
      combined_collection =
        [\<lparr>chart_id = ''Shopping'', chart_category = ''Shopping'', chart_value = 1750\<rparr>],
      processed_ids = {1, 10}\<rparr>"

definition other_clock :: "ident \<Rightarrow> string" where
  "other_clock i = ''2024-03-02 08:00:00''"

definition filtered_state :: state where
  "filtered_state =
     \<lparr>raw_collection =
        [\<lparr>sms_id = 2, raw_body = Some ''Hello, see you at 5'', raw_address = None,
          raw_readable_date = None\<rparr>,
         \<lparr>sms_id = 3, raw_body = Some ''Hurry! Offer: Rs. 50 cashback credited'',
          raw_address = Some ''AD-SHOP'', raw_readable_date = None\<rparr>],
      processed_collection = [],
      categorized_collection = [],
      manual_collection = [],
      combined_collection = [],
      processed_ids = {}\<rparr>"


section \<open>Floats: results\<close>

text \<open>The binary exponent is the one that brackets \<open>x\<close>.\<close>

lemma bit_length_step: "0 < n \<Longrightarrow> bit_length n = Suc (bit_length (n div 2))"
  by (subst bit_length.simps) simp

lemma bit_length_bounds:
  "0 < n \<Longrightarrow> 2 ^ (bit_length n - 1) \<le> n \<and> n < 2 ^ bit_length n"
proof (induction n rule: less_induct)
  case (less n)
  have bl: "bit_length n = Suc (bit_length (n div 2))"
    using less.prems by (rule bit_length_step)
  show ?case
  proof (cases "n div 2 = 0")
    case True
    with less.prems have n: "n = 1" by (simp add: div_eq_0_iff)
    have "bit_length (0::nat) = 0" by (subst bit_length.simps) simp
    with bl n show ?thesis by (simp del: bit_length.simps)
  next
    case False
    then have pos: "0 < n div 2" by simp
    have "n div 2 < n" using less.prems by simp
    from less.IH [OF this pos]
    have lo: "2 ^ (bit_length (n div 2) - 1) \<le> n div 2" and hi: "n div 2 < 2 ^ bit_length (n div 2)"
      by simp_all
    from bit_length_step [OF pos] obtain m where m: "bit_length (n div 2) = Suc m" by blast
    from lo have "(2::nat) ^ m \<le> n div 2" by (simp add: m del: bit_length.simps)
    then have "(2::nat) ^ Suc m \<le> n" by simp
    then have l: "2 ^ (bit_length n - 1) \<le> n" by (simp add: bl m del: bit_length.simps)
    from hi have "n div 2 < 2 ^ Suc m" by (simp add: m del: bit_length.simps)
    then have "n < 2 ^ Suc (Suc m)" by simp
    then have h: "n < 2 ^ bit_length n" by (simp add: bl m del: bit_length.simps)
    from l h show ?thesis by blast
  qed
qed

lemma pow2_neg: "pow2 (- int k) = 1 / 2 ^ k"
  by (simp add: pow2_def)

lemma pow2_nat: "pow2 (int k) = 2 ^ k"
  by (simp add: pow2_def)

lemma pow2_Suc: "pow2 (1 + int k) = 2 * 2 ^ k"
  using pow2_nat [of "Suc k"] by simp

lemma binade_bounds:
  assumes "0 < x"
  shows "pow2 (binade x) \<le> x \<and> x < pow2 (binade x + 1)"
proof (cases "1 \<le> x")
  case True
  let ?n = "nat \<lfloor>x\<rfloor>"
  from True have n: "0 < ?n" by simp
  from bit_length_step [OF n] obtain m where m: "bit_length ?n = Suc m" by blast
  from bit_length_bounds [OF n] have lo: "2 ^ m \<le> ?n" and hi: "?n < 2 ^ Suc m"
    by (simp_all add: m del: bit_length.simps)
  have b: "binade x = int m" using True by (simp add: binade_def m del: bit_length.simps)
  have "real ?n \<le> x" using True by simp
  moreover from lo have "(2::real) ^ m \<le> real ?n"
    by (metis of_nat_le_iff of_nat_numeral of_nat_power)
  ultimately have l: "2 ^ m \<le> x" by linarith
  have "x < real ?n + 1" using True by linarith
  moreover from hi have "real ?n + 1 \<le> 2 ^ Suc m"
    by (metis Suc_leI of_nat_Suc of_nat_le_iff of_nat_numeral of_nat_power add.commute plus_1_eq_Suc)
  ultimately have h: "x < 2 ^ Suc m" by linarith
  from l h show ?thesis by (simp add: b pow2_def nat_add_distrib)
next
  case False
  let ?y = "1 / x"
  let ?n = "nat \<lfloor>?y\<rfloor>"
  from False assms have y: "1 < ?y" by simp
  then have "1 \<le> \<lfloor>?y\<rfloor>" by linarith
  then have n: "0 < ?n" by linarith
  from bit_length_step [OF n] obtain m where m: "bit_length ?n = Suc m" by blast
  from bit_length_bounds [OF n] have lo: "2 ^ m \<le> ?n" and hi: "?n < 2 ^ Suc m"
    by (simp_all add: m del: bit_length.simps)
  have "0 \<le> \<lfloor>?y\<rfloor>" using y by linarith
  then have fl: "real ?n = of_int \<lfloor>?y\<rfloor>"
    by (rule of_nat_nat)
  have "real ?n \<le> ?y" unfolding fl by (rule of_int_floor_le)
  moreover from lo have "(2::real) ^ m \<le> real ?n"
    by (metis of_nat_le_iff of_nat_numeral of_nat_power)
  ultimately have l: "2 ^ m \<le> ?y" by linarith
  have "?y < real ?n + 1" unfolding fl by linarith
  moreover from hi have "real ?n + 1 \<le> 2 ^ Suc m"
    by (metis Suc_leI of_nat_Suc of_nat_le_iff of_nat_numeral of_nat_power add.commute plus_1_eq_Suc)
  ultimately have h: "?y < 2 ^ Suc m" by linarith
  from l assms have xl: "x * 2 ^ m \<le> 1"
    by (simp add: field_simps)
  from h assms have xh: "1 < x * 2 ^ Suc m"
    by (simp add: field_simps)
  show ?thesis
  proof (cases "x * 2 ^ m = 1")
    case True
    with False have "m \<noteq> 0" by (cases m) auto
    then obtain k where k: "m = Suc k" by (cases m) auto
    from True have b: "binade x = - int (Suc k)"
      using False by (simp add: binade_def m pow2_nat pow2_Suc Let_def k del: bit_length.simps)
    from True have x: "x = 1 / 2 ^ Suc k" by (simp add: field_simps k)
    have "pow2 (binade x) = 1 / 2 ^ Suc k" unfolding b by (rule pow2_neg)
    then have "pow2 (binade x) = x" by (simp only: x [symmetric])
    moreover have "binade x + 1 = - int k" by (simp add: b)
    then have "pow2 (binade x + 1) = 1 / 2 ^ k" by (simp only: pow2_neg)
    then have "x < pow2 (binade x + 1)" by (simp add: x field_simps)
    ultimately show ?thesis by simp
  next
    case ne: False
    then have b: "binade x = - int (Suc m)"
      using False by (simp add: binade_def m pow2_nat pow2_Suc Let_def del: bit_length.simps)
    have p1: "pow2 (binade x) = 1 / 2 ^ Suc m" unfolding b by (rule pow2_neg)
    have "binade x + 1 = - int m" by (simp add: b)
    then have p2: "pow2 (binade x + 1) = 1 / 2 ^ m" by (simp only: pow2_neg)
    from xl ne have "x * 2 ^ m < 1" by simp
    then have "x < 1 / 2 ^ m" by (simp add: field_simps)
    moreover from xh have "1 / 2 ^ Suc m \<le> x" by (simp add: field_simps)
    ultimately show ?thesis by (simp only: p1 p2)
  qed
qed

lemmas float_defs =
  to_double_def binade_def pow2_def round_half_even_def float_add_def py_round2_def float_sum_def
  Let_def

text \<open>
  The ties where Python's \<open>round\<close> follows the binary value of the float:
  2.675 is stored as a double below the tie and rounds to 2.67, 10.005 as a
  double above the tie and rounds to 10.01; and 0.1 + 0.2 is the double above
  0.3.
\<close>

lemma py_round2_examples:
  "py_round2 (to_double (2675 / 1000)) = to_double (267 / 100)"
  "py_round2 (to_double (10005 / 1000)) = to_double (1001 / 100)"
  "py_round2 (to_double (125 / 1000)) = to_double (12 / 100)"
  "float_add (to_double (1 / 10)) (to_double (2 / 10)) = 1351079888211149 / 4503599627370496"
  "py_round2 (float_add (to_double (1 / 10)) (to_double (2 / 10))) = to_double (3 / 10)"
  by (simp_all add: float_defs)

section \<open>Extraction and classification: results\<close>

text \<open>
  C7. On the body \<open>Rs. 1,500 sent to John Doe\<close> extraction returns the amount
  \<open>1500\<close> (the first currency-prefixed number, its comma removed), the
  counterpart \<open>John Doe\<close> and the direction \<open>debited\<close>: neither \<open>credited\<close> nor
  \<open>received\<close> occurs in the body, and \<open>sent\<close> does. The result is a function of
  the body alone.
\<close>

theorem parse_transaction_details_example:
  "parse_transaction_details ''Rs. 1,500 sent to John Doe'' = (''1500'', ''John Doe'', ''debited'')
   \<and> \<not> py_in ''credited'' (lower ''Rs. 1,500 sent to John Doe'')
   \<and> \<not> py_in ''received'' (lower ''Rs. 1,500 sent to John Doe'')
   \<and> py_in ''sent'' (lower ''Rs. 1,500 sent to John Doe'')
   \<and> money_search ''Rs. 1,500 sent to John Doe'' = Some ''1,500''"
  by code_simp

lemma lower_NA: "lower ''N/A'' \<noteq> ''credited''"
  by (simp add: lower_def)

text \<open>
  C3 (as the code has it). For a credit (a direction that lower-cases to
  \<open>credited\<close>) classification returns \<open>Savings & Transfers\<close> whatever label the
  model predicts, provided the model is trained and the prediction returns. The
  model is invoked first: an untrained model gives \<open>Miscellaneous\<close>, and so does
  a prediction that raises.
\<close>

theorem classify_transaction_credit:
  "(lower transaction_type = ''credited'' \<longrightarrow> predict (clean_text body) = Inr label \<longrightarrow>
      classify_transaction (Some predict) body transaction_type = Inr ''Savings & Transfers'')
   \<and> classify_transaction None body transaction_type = Inr ''Miscellaneous''
   \<and> (predict (clean_text body) = Inl e \<longrightarrow>
      classify_transaction (Some predict) body transaction_type = Inr ''Miscellaneous'')"
proof (intro conjI impI)
  assume credit: "lower transaction_type = ''credited''"
    and ok: "predict (clean_text body) = Inr label"
  from credit have "transaction_type \<noteq> ''N/A''"
    using lower_NA by auto
  with credit ok
  show "classify_transaction (Some predict) body transaction_type = Inr ''Savings & Transfers''"
    by (simp add: classify_transaction_def try_except_def)
next
  show "classify_transaction None body transaction_type = Inr ''Miscellaneous''"
    by (simp add: classify_transaction_def)
next
  assume "predict (clean_text body) = Inl e"
  then show "classify_transaction (Some predict) body transaction_type = Inr ''Miscellaneous''"
    by (simp add: classify_transaction_def try_except_def)
qed

theorem classify_transaction_credit_witness:
  "classify_transaction (Some (\<lambda>t. Inr ''Shopping'')) ''Rs. 500 credited to your account'' ''credited''
     = Inr ''Savings & Transfers''
   \<and> classify_transaction (Some (\<lambda>t. Inl RuntimeFailure)) ''Rs. 500 credited to your account'' ''credited''
     = Inr ''Miscellaneous''"
  using classify_transaction_credit
          [of "''credited''" "\<lambda>t. Inr ''Shopping''" "''Rs. 500 credited to your account''" "''Shopping''"]
        classify_transaction_credit
          [of "''credited''" "\<lambda>t. Inl RuntimeFailure" "''Rs. 500 credited to your account''" _ RuntimeFailure]
  by (simp add: lower_def lower_char_def ascii_upper_def ascii_lower_def)

text \<open>
  C3 as stated fails: with an untrained model, and with a model whose
  prediction raises, a credit is classified \<open>Miscellaneous\<close>.
\<close>

theorem classify_transaction_credit_counterexample:
  "classify_transaction None ''Rs. 500 credited to your account'' ''credited'' \<noteq> Inr ''Savings & Transfers''
   \<and> classify_transaction (Some (\<lambda>t. Inl RuntimeFailure)) ''Rs. 500 credited to your account'' ''credited''
       \<noteq> Inr ''Savings & Transfers''"
  by (simp add: classify_transaction_def try_except_def)

text \<open>
  C6. Classification always returns a category and never an exception. With an
  untrained model, and with the direction \<open>N/A\<close> whatever the model is, it
  returns \<open>Miscellaneous\<close> without consulting the model; a prediction that
  raises is caught and gives \<open>Miscellaneous\<close> too.
\<close>

theorem classify_transaction_never_raises:
  "(\<exists>category. classify_transaction model body transaction_type = Inr category)
   \<and> classify_transaction None body transaction_type = Inr ''Miscellaneous''
   \<and> classify_transaction model body ''N/A'' = Inr ''Miscellaneous''
   \<and> (predict (clean_text body) = Inl e \<longrightarrow>
        classify_transaction (Some predict) body transaction_type = Inr ''Miscellaneous'')"
proof (intro conjI impI)
  show "\<exists>category. classify_transaction model body transaction_type = Inr category"
  proof (cases model)
    case None
    then show ?thesis by (simp add: classify_transaction_def)
  next
    case (Some predict)
    then show ?thesis
      by (cases "predict (clean_text body)")
         (simp_all add: classify_transaction_def try_except_def)
  qed
next
  show "classify_transaction None body transaction_type = Inr ''Miscellaneous''"
    by (simp add: classify_transaction_def)
next
  show "classify_transaction model body ''N/A'' = Inr ''Miscellaneous''"
    by (cases model) (simp_all add: classify_transaction_def)
next
  assume "predict (clean_text body) = Inl e"
  then show "classify_transaction (Some predict) body transaction_type = Inr ''Miscellaneous''"
    by (simp add: classify_transaction_def try_except_def)
qed

theorem classify_transaction_never_raises_witness:
  "classify_transaction (Some (\<lambda>t. Inl ValueError)) ''INR 90 debited'' ''debited'' = Inr ''Miscellaneous''
   \<and> classify_transaction (Some (\<lambda>t. Inr ''Shopping'')) ''INR 90 paid'' ''N/A'' = Inr ''Miscellaneous''"
  using classify_transaction_never_raises
          [of "Some (\<lambda>t. Inr ''Shopping'')" "''INR 90 paid''" "''debited''" "\<lambda>t. Inl ValueError" ValueError]
        classify_transaction_never_raises
          [of "Some (\<lambda>t. Inr ''Shopping'')" "''INR 90 debited''" "''debited''" "\<lambda>t. Inl ValueError" ValueError]
  by simp

section \<open>Budget analysis: results\<close>

lemma update_fresh: "k \<notin> fst ` set al \<Longrightarrow> AList.update k v al = al @ [(k, v)]"
  by (induction al) auto

lemma fold_update_fresh:
  "distinct (map key xs) \<Longrightarrow> (\<forall>x\<in>set xs. key x \<notin> fst ` set acc) \<Longrightarrow>
   fold (\<lambda>x d. if P x then AList.update (key x) (val x) d else d) xs acc
     = acc @ map (\<lambda>x. (key x, val x)) (filter P xs)"
proof (induction xs arbitrary: acc)
  case Nil
  then show ?case by simp
next
  case (Cons x xs)
  show ?case
  proof (cases "P x")
    case True
    have fresh: "key x \<notin> fst ` set acc" using Cons.prems(2) by simp
    have "\<forall>y\<in>set xs. key y \<notin> fst ` set (acc @ [(key x, val x)])"
      using Cons.prems by (auto simp: image_iff)
    with Cons.IH [of "acc @ [(key x, val x)]"] Cons.prems(1) True fresh
    show ?thesis by (simp add: update_fresh)
  next
    case False
    with Cons show ?thesis by simp
  qed
qed

lemma set_budget_constraints_items:
  assumes "distinct (map fst ms)"
  shows "set_budget_constraints ms
     = map (\<lambda>x. (fst x, snd x * dict_get reducible_categories (fst x) 1))
         (filter (\<lambda>x. fst x \<notin> excluded_categories) ms)"
proof -
  have "set_budget_constraints ms
      = fold (\<lambda>x d. if fst x \<notin> excluded_categories
                then AList.update (fst x) (snd x * dict_get reducible_categories (fst x) 1) d else d) ms []"
    unfolding set_budget_constraints_def
    by (rule arg_cong [where f = "\<lambda>f. fold f ms []"]) (auto simp: fun_eq_iff)
  also have "\<dots> = [] @ map (\<lambda>x. (fst x, snd x * dict_get reducible_categories (fst x) 1))
         (filter (\<lambda>x. fst x \<notin> excluded_categories) ms)"
    using assms by (intro fold_update_fresh) auto
  finally show ?thesis by simp
qed

lemma savings_per_category_items:
  assumes "distinct (map fst ms)"
  shows "savings_per_category ms bc
     = map (\<lambda>x. (fst x, snd x - dict_get bc (fst x) (snd x)))
         (filter (\<lambda>x. fst x \<notin> excluded_categories) ms)"
proof -
  have "savings_per_category ms bc
      = fold (\<lambda>x d. if fst x \<notin> excluded_categories
                then AList.update (fst x) (snd x - dict_get bc (fst x) (snd x)) d else d) ms []"
    unfolding savings_per_category_def
    by (rule arg_cong [where f = "\<lambda>f. fold f ms []"]) (auto simp: fun_eq_iff)
  also have "\<dots> = [] @ map (\<lambda>x. (fst x, snd x - dict_get bc (fst x) (snd x)))
         (filter (\<lambda>x. fst x \<notin> excluded_categories) ms)"
    using assms by (intro fold_update_fresh) auto
  finally show ?thesis by simp
qed

lemma reduction_factor_le_1: "dict_get reducible_categories c 1 \<le> 1"
  by (simp add: dict_get_def reducible_categories_def)

lemma reduction_factor_ge_0: "0 \<le> dict_get reducible_categories c 1"
  by (simp add: dict_get_def reducible_categories_def)

lemma map_of_mapped_items:
  "distinct (map fst xs) \<Longrightarrow> (c, a) \<in> set xs \<Longrightarrow> P (c, a) \<Longrightarrow>
   map_of (map (\<lambda>x. (fst x, f x)) (filter P xs)) c = Some (f (c, a))"
proof (induction xs)
  case Nil
  then show ?case by simp
next
  case (Cons x xs)
  then show ?case by (cases x) (auto simp: rev_image_eqI)
qed


text \<open>
  C9. For a monthly spending dictionary with non-negative amounts, the savings of
  each category that is not excluded is its amount times one minus its
  reduction factor; every factor is at most 1 (a category outside the table has
  factor 1), so each contribution is non-negative and so is the total that
  \<open>calculate_savings_potential\<close> returns.
\<close>

theorem savings_potential_nonneg:
  assumes dict: "distinct (map fst monthly_spending)"
    and nonneg: "\<forall>x\<in>set monthly_spending. 0 \<le> snd x"
  shows "0 \<le> calculate_savings_potential monthly_spending (set_budget_constraints monthly_spending)
    \<and> savings_per_category monthly_spending (set_budget_constraints monthly_spending)
        = map (\<lambda>x. (fst x, snd x * (1 - dict_get reducible_categories (fst x) 1)))
            (filter (\<lambda>x. fst x \<notin> excluded_categories) monthly_spending)
    \<and> (\<forall>x\<in>set monthly_spending. 0 \<le> snd x * (1 - dict_get reducible_categories (fst x) 1))
    \<and> dict_get reducible_categories c 1 \<le> 1"
proof -
  let ?bc = "set_budget_constraints monthly_spending"
  let ?keep = "\<lambda>x::string \<times> real. fst x \<notin> excluded_categories"
  let ?f = "\<lambda>x::string \<times> real. dict_get reducible_categories (fst x) 1"
  have get: "dict_get ?bc (fst x) (snd x) = snd x * ?f x"
    if "x \<in> set monthly_spending" "?keep x" for x
  proof -
    from that have "(fst x, snd x) \<in> set monthly_spending" by simp
    from map_of_mapped_items [OF dict this, of ?keep "\<lambda>x. snd x * ?f x"] that(2)
    show ?thesis
      by (simp add: dict_get_def set_budget_constraints_items [OF dict])
  qed
  have items: "savings_per_category monthly_spending ?bc
      = map (\<lambda>x. (fst x, snd x * (1 - ?f x))) (filter ?keep monthly_spending)"
    unfolding savings_per_category_items [OF dict]
    by (rule map_cong) (auto simp: get algebra_simps)
  have each: "0 \<le> snd x * (1 - ?f x)" if "x \<in> set monthly_spending" for x
    using nonneg that reduction_factor_le_1 [of "fst x"] by (simp add: mult_nonneg_nonneg)
  have "0 \<le> sum_list (map (\<lambda>x. snd x * (1 - ?f x)) (filter ?keep monthly_spending))"
    by (rule sum_list_nonneg) (use each in force)
  then have total: "0 \<le> calculate_savings_potential monthly_spending ?bc"
    by (simp add: calculate_savings_potential_def items comp_def)
  from total items each reduction_factor_le_1 show ?thesis by blast
qed


theorem savings_potential_nonneg_witness:
  "calculate_savings_potential [(''Shopping'', 1000), (''Essentials'', 500), (''Rent'', 300)]
     (set_budget_constraints [(''Shopping'', 1000), (''Essentials'', 500), (''Rent'', 300)]) = 200
   \<and> 0 \<le> calculate_savings_potential [(''Shopping'', 1000), (''Essentials'', 500), (''Rent'', 300)]
     (set_budget_constraints [(''Shopping'', 1000), (''Essentials'', 500), (''Rent'', 300)])"
  using savings_potential_nonneg [of "[(''Shopping'', 1000), (''Essentials'', 500), (''Rent'', 300)]" "''Shopping''"]
  by (simp add: calculate_savings_potential_def savings_per_category_def set_budget_constraints_def
        excluded_categories_def dict_get_def reducible_categories_def)








lemma dict_get_update:
  "dict_get (AList.update k v d) k' dflt = (if k' = k then v else dict_get d k' dflt)"
  by (simp add: dict_get_def update_conv')

lemma float_sum_Cons: "float_sum start (a # amounts) = float_sum (float_add start a) amounts"
  by (simp add: float_sum_def)

lemma debited_amounts_Cons:
  "debited_amounts c (item # items)
     = (if Transaction_Type item = Some ''debited'' \<and> Category item = Some c
           \<and> c \<notin> excluded_categories
        then (case item_amount item of Inr a \<Rightarrow> [a] | Inl e \<Rightarrow> []) else [])
       @ debited_amounts c items"
  by (simp add: debited_amounts_def split: sum.splits)

lemma current_spending_loop_total:
  "current_spending_loop docs current = Inr result \<Longrightarrow>
   dict_get result c 0 = float_sum (dict_get current c 0) (debited_amounts c docs)"
proof (induction docs arbitrary: current)
  case Nil
  then show ?case by (simp add: debited_amounts_def float_sum_def)
next
  case (Cons item items)
  from Cons.prems show ?case
    unfolding debited_amounts_Cons
    by (auto simp: dict_get_update float_sum_Cons float_sum_def
             dest!: Cons.IH split: option.splits if_splits sum.splits)
qed

lemma current_spending_loop_returns:
  "\<forall>d\<in>set docs. Transaction_Type d \<noteq> None \<and> Category d \<noteq> None \<Longrightarrow>
   \<exists>result. current_spending_loop docs current = Inr result"
  by (induction docs arbitrary: current) (auto split: sum.splits)

text \<open>
  C10 (as the code has it). The \<open>current\<close> figure of each recommendation record
  is \<open>round(x, 2)\<close> of the sum of the amounts of all stored categorized
  transactions of the record's category whose direction is \<open>debited\<close>; the
  category is outside the excluded set, no date is read, and credits and
  amounts that do not convert count as nothing. The sum is the float sum in
  stored order and the rounding is Python's. The records are written whenever
  every document has its direction and category fields.
\<close>

theorem current_spending_all_history:
  "(monthly_analysis_recommendations budget_constraints docs = Inr records \<longrightarrow>
      (\<forall>r\<in>set records. rec_current r = py_round2 (debited_total (rec_category r) docs))
      \<and> map rec_category records = map fst budget_constraints)
   \<and> ((\<forall>d\<in>set docs. Transaction_Type d \<noteq> None \<and> Category d \<noteq> None) \<longrightarrow>
        (\<exists>records. monthly_analysis_recommendations budget_constraints docs = Inr records))"
proof (intro conjI impI)
  assume run: "monthly_analysis_recommendations budget_constraints docs = Inr records"
  then obtain current
    where cur: "current_spending_loop docs [] = Inr current"
      and records: "records = save_recommendations current budget_constraints"
    by (auto simp: monthly_analysis_recommendations_def get_current_spending_def
             split: sum.splits)
  have total: "dict_get current c 0 = debited_total c docs" for c
    using current_spending_loop_total [OF cur, of c] by (simp add: dict_get_def debited_total_def)
  show "\<forall>r\<in>set records. rec_current r = py_round2 (debited_total (rec_category r) docs)"
    by (auto simp: records save_recommendations_def total)
  show "map rec_category records = map fst budget_constraints"
    by (simp add: records save_recommendations_def split_def comp_def)
next
  assume "\<forall>d\<in>set docs. Transaction_Type d \<noteq> None \<and> Category d \<noteq> None"
  from current_spending_loop_returns [OF this, of "[]"]
  show "\<exists>records. monthly_analysis_recommendations budget_constraints docs = Inr records"
    by (auto simp: monthly_analysis_recommendations_def get_current_spending_def)
qed

theorem current_spending_all_history_witness:
  "monthly_analysis_recommendations [(''Shopping'', 160)] sample_docs
     = Inr [\<lparr>rec_id = ''Shopping'', rec_category = ''Shopping'', rec_current = 200,
             rec_recommended = 160\<rparr>]
   \<and> py_round2 (debited_total ''Shopping'' sample_docs) = 200"
proof -
  have run: "monthly_analysis_recommendations [(''Shopping'', 160)] sample_docs
     = Inr [\<lparr>rec_id = ''Shopping'', rec_category = ''Shopping'', rec_current = 200,
             rec_recommended = 160\<rparr>]"
    by (simp add: monthly_analysis_recommendations_def get_current_spending_def sample_docs_def
          save_recommendations_def excluded_categories_def
          item_amount_def py_float_def dict_get_def float_defs)
  have fields: "\<forall>d\<in>set sample_docs. Transaction_Type d \<noteq> None \<and> Category d \<noteq> None"
    by (simp add: sample_docs_def)
  from current_spending_all_history
         [of "[(''Shopping'', 160)]" sample_docs
             "[\<lparr>rec_id = ''Shopping'', rec_category = ''Shopping'', rec_current = 200,
             rec_recommended = 160\<rparr>]"]
       run fields
  show ?thesis by simp
qed

text \<open>
  C10 as stated fails: one debited transaction of 10.004 is stored as the
  current figure 10, not as its sum, the float 10.004.
\<close>

theorem current_spending_rounding_counterexample:
  "py_float_str ''10.004'' = Inr (to_double (10004 / 1000))
   \<and> monthly_analysis_recommendations [(''Shopping'', 8)] rounding_docs
     = Inr [\<lparr>rec_id = ''Shopping'', rec_category = ''Shopping'', rec_current = 10,
             rec_recommended = 8\<rparr>]
   \<and> debited_total ''Shopping'' rounding_docs = to_double (10004 / 1000)
   \<and> to_double (10004 / 1000) \<noteq> 10"
proof -
  have parse: "py_float_str ''10.004'' = Inr (to_double (10004 / 1000))"
    by (simp add: py_float_str_def is_digit_def ascii_digits_def digits_value_def digit_val_def)
  have dbl: "to_double (10004 / 1000) = 5631751334026805 / 562949953421312"
    by (simp add: float_defs)
  have run: "monthly_analysis_recommendations [(''Shopping'', 8)] rounding_docs
     = Inr [\<lparr>rec_id = ''Shopping'', rec_category = ''Shopping'', rec_current = 10,
             rec_recommended = 8\<rparr>]"
    unfolding rounding_docs_def dbl
    by (simp add: monthly_analysis_recommendations_def get_current_spending_def
          save_recommendations_def excluded_categories_def
          item_amount_def py_float_def dict_get_def float_defs)
  have total: "debited_total ''Shopping'' rounding_docs = 5631751334026805 / 562949953421312"
    unfolding rounding_docs_def dbl
    by (simp add: debited_total_def debited_amounts_def excluded_categories_def item_amount_def
          py_float_def float_defs)
  show ?thesis
    unfolding parse run total dbl by simp
qed

section \<open>Aggregation: results\<close>

lemma accumulate_totals_append:
  "accumulate_totals (xs @ ys) acc =
     (case accumulate_totals xs acc of Inl e \<Rightarrow> Inl e | Inr t \<Rightarrow> accumulate_totals ys t)"
  by (induction xs arbitrary: acc) (auto simp: Let_def split: option.splits sum.splits prod.splits)

lemma category_totals_fields:
  "category_totals categorized manual = accumulate_totals (source_fields categorized manual) []"
  by (simp add: category_totals_def source_fields_def accumulate_totals_append)

lemma accumulate_totals_step:
  "accumulate_totals ((c, a) # fs) acc =
     (case renamed c of
        None \<Rightarrow> accumulate_totals fs acc
      | Some nb \<Rightarrow>
          (case (case a of None \<Rightarrow> Inr 0 | Some v \<Rightarrow> py_float v) of
             Inl e \<Rightarrow> Inl e
           | Inr amt \<Rightarrow>
               accumulate_totals fs (AList.update nb (float_add (dict_get acc nb 0) amt) acc)))"
  by (simp add: renamed_def Let_def)

declare accumulate_totals.simps(2) [simp del]

lemma bucket_amounts_Cons:
  "bucket_amounts b ((c, a) # fs)
     = (if renamed c = Some b then [amount_or_zero a] else []) @ bucket_amounts b fs"
  by (simp add: bucket_amounts_def)

lemma accumulate_totals_total:
  "accumulate_totals fs acc = Inr totals \<Longrightarrow>
   dict_get totals b 0 = float_sum (dict_get acc b 0) (bucket_amounts b fs)"
proof (induction fs arbitrary: acc)
  case Nil
  then show ?case by (simp add: bucket_amounts_def float_sum_def)
next
  case (Cons f fs)
  obtain c a where f: "f = (c, a)" by (cases f)
  show ?case
  proof (cases "renamed c")
    case None
    with Cons.prems have "accumulate_totals fs acc = Inr totals"
      by (simp add: f accumulate_totals_step)
    from Cons.IH [OF this] None show ?thesis
      by (simp add: f bucket_amounts_Cons)
  next
    case (Some nb)
    with Cons.prems obtain amt
      where amt: "(case a of None \<Rightarrow> Inr 0 | Some v \<Rightarrow> py_float v) = Inr amt"
        and rest: "accumulate_totals fs (AList.update nb (float_add (dict_get acc nb 0) amt) acc)
                     = Inr totals"
      by (auto simp: f accumulate_totals_step split: sum.splits)
    from amt have a: "amount_or_zero a = amt"
      by (auto simp: amount_or_zero_def split: option.splits)
    from Cons.IH [OF rest] Some a show ?thesis
      by (simp add: f bucket_amounts_Cons dict_get_update float_sum_Cons)
  qed
qed

lemma fst_set_update: "fst ` set (AList.update k v al) = insert k (fst ` set al)"
  by (induction al) auto

lemma accumulate_totals_keys:
  "accumulate_totals fs acc = Inr totals \<Longrightarrow>
   fst ` set totals = fst ` set acc \<union> {b. \<exists>f\<in>set fs. renamed (fst f) = Some b}"
proof (induction fs arbitrary: acc)
  case Nil
  then show ?case by simp
next
  case (Cons f fs)
  obtain c a where f: "f = (c, a)" by (cases f)
  show ?case
  proof (cases "renamed c")
    case None
    with Cons.prems have "accumulate_totals fs acc = Inr totals"
      by (simp add: f accumulate_totals_step)
    from Cons.IH [OF this] None show ?thesis
      by (auto simp: f)
  next
    case (Some nb)
    with Cons.prems obtain amt
      where rest: "accumulate_totals fs (AList.update nb (float_add (dict_get acc nb 0) amt) acc)
                     = Inr totals"
      by (auto simp: f accumulate_totals_step split: sum.splits)
    from Cons.IH [OF rest] Some show ?thesis
      by (auto simp: f fst_set_update)
  qed
qed

lemma accumulate_totals_distinct:
  "accumulate_totals fs acc = Inr totals \<Longrightarrow> distinct (map fst acc) \<Longrightarrow> distinct (map fst totals)"
proof (induction fs arbitrary: acc)
  case Nil
  then show ?case by simp
next
  case (Cons f fs)
  obtain c a where f: "f = (c, a)" by (cases f)
  from Cons.prems show ?case
    by (auto simp: f accumulate_totals_step distinct_update
             split: option.splits sum.splits intro: Cons.IH)
qed

lemma accumulate_totals_in_table:
  "accumulate_totals (filter in_table fs) acc = accumulate_totals fs acc"
proof (induction fs arbitrary: acc)
  case Nil
  then show ?case by simp
next
  case (Cons f fs)
  obtain c a where f: "f = (c, a)" by (cases f)
  have head: "in_table (c, a) \<longleftrightarrow> renamed c \<noteq> None"
    by (simp add: in_table_def)
  show ?case
    by (cases "renamed c")
       (auto simp: f head accumulate_totals_step Cons.IH split: sum.splits)
qed

lemma update_one_set_fresh:
  "c \<notin> chart_id ` set coll \<Longrightarrow>
   update_one_set c v coll = coll @ [\<lparr>chart_id = c, chart_category = c, chart_value = v\<rparr>]"
  by (induction coll) auto

lemma fold_update_one_set_fresh:
  "distinct (map fst ts) \<Longrightarrow> (\<forall>x\<in>set ts. fst x \<notin> chart_id ` set coll) \<Longrightarrow>
   fold (\<lambda>(category, total). update_one_set category (py_round2 total)) ts coll
     = coll @ map chart_doc ts"
proof (induction ts arbitrary: coll)
  case Nil
  then show ?case by simp
next
  case (Cons x ts)
  obtain c t where x: "x = (c, t)" by (cases x)
  have fresh: "c \<notin> chart_id ` set coll" using Cons.prems(2) by (simp add: x)
  have "\<forall>y\<in>set ts. fst y \<notin> chart_id ` set (coll @ [chart_doc x])"
    using Cons.prems by (auto simp: image_iff chart_doc_def x)
  with Cons.IH [of "coll @ [chart_doc x]"] Cons.prems(1) fresh
  show ?case by (simp add: x update_one_set_fresh chart_doc_def)
qed

lemma update_combined_transactions_eq:
  "update_combined_transactions s =
     (case category_totals (categorized_collection s) (manual_collection s) of
        Inl e \<Rightarrow> (s\<lparr>combined_collection := []\<rparr>, Inl e)
      | Inr totals \<Rightarrow> (s\<lparr>combined_collection := map chart_doc totals\<rparr>, Inr ()))"
proof (cases "category_totals (categorized_collection s) (manual_collection s)")
  case (Inl e)
  then show ?thesis by (simp add: update_combined_transactions_def)
next
  case (Inr totals)
  then have "distinct (map fst totals)"
    using accumulate_totals_distinct [of _ "[]" totals] by (simp add: category_totals_fields)
  then have "fold (\<lambda>(category, total). update_one_set category (py_round2 total)) totals []
      = map chart_doc totals"
    using fold_update_one_set_fresh [of totals "[]"] by simp
  with Inr show ?thesis by (simp add: update_combined_transactions_def)
qed

lemma accumulate_totals_returns:
  "\<forall>f\<in>set fs. snd f \<noteq> Some NotNumeric \<Longrightarrow> \<exists>totals. accumulate_totals fs acc = Inr totals"
proof (induction fs arbitrary: acc)
  case Nil
  then show ?case by simp
next
  case (Cons f fs)
  obtain c a where f: "f = (c, a)" by (cases f)
  from Cons.prems have a: "a \<noteq> Some NotNumeric" by (simp add: f)
  have "\<exists>amt. (case a of None \<Rightarrow> Inr 0 | Some v \<Rightarrow> py_float v) = Inr amt"
  proof (cases a)
    case None
    then show ?thesis by simp
  next
    case (Some v)
    with a show ?thesis by (cases v) (simp_all add: py_float_def)
  qed
  then obtain amt where "(case a of None \<Rightarrow> Inr 0 | Some v \<Rightarrow> py_float v) = Inr amt" ..
  with Cons show ?case
    by (cases "renamed c") (auto simp: f accumulate_totals_step)
qed

text \<open>
  C8 (as the code has it). \<open>update_combined_transactions\<close> replaces the
  combined collection by one document for each renamed category that some
  categorized transaction or manual entry maps to; its value is \<open>round(x, 2)\<close>
  of the sum of the amounts of those categorized transactions and manual
  entries, the float sum in stored order with Python's rounding. Documents
  whose category is not in the renaming table change nothing. It returns
  whenever no amount fails to convert. Two categorized amounts 100 and 50 of
  one renamed category give the total 150.
\<close>

theorem combined_totals:
  "(update_combined_transactions s = (s', Inr ()) \<longrightarrow>
      distinct (map chart_id (combined_collection s'))
      \<and> (\<forall>d\<in>set (combined_collection s').
            chart_category d = chart_id d
            \<and> chart_value d
                = py_round2 (bucket_total (chart_id d)
                            (source_fields (categorized_collection s) (manual_collection s))))
      \<and> chart_id ` set (combined_collection s')
          = {b. \<exists>f\<in>set (source_fields (categorized_collection s) (manual_collection s)).
                  renamed (fst f) = Some b})
   \<and> ((\<forall>f\<in>set (source_fields (categorized_collection s) (manual_collection s)).
          snd f \<noteq> Some NotNumeric) \<longrightarrow>
        (\<exists>s'. update_combined_transactions s = (s', Inr ())))
   \<and> category_totals categorized manual
        = accumulate_totals (filter in_table (source_fields categorized manual)) []
   \<and> combined_collection (fst (update_combined_transactions food_state))
        = [\<lparr>chart_id = ''Food'', chart_category = ''Food'', chart_value = 150\<rparr>]"
proof (intro conjI impI)
  let ?fs = "source_fields (categorized_collection s) (manual_collection s)"
  assume run: "update_combined_transactions s = (s', Inr ())"
  then obtain totals
    where totals: "accumulate_totals ?fs [] = Inr totals"
      and s': "combined_collection s' = map chart_doc totals"
    by (auto simp: update_combined_transactions_eq category_totals_fields split: sum.splits)
  have dist: "distinct (map fst totals)"
    using accumulate_totals_distinct [OF totals] by simp
  have ids: "map chart_id (map chart_doc totals) = map fst totals"
    by (simp add: chart_doc_def comp_def)
  show "distinct (map chart_id (combined_collection s'))"
    by (simp only: s' ids dist)
  show "\<forall>d\<in>set (combined_collection s').
            chart_category d = chart_id d
            \<and> chart_value d = py_round2 (bucket_total (chart_id d) ?fs)"
  proof
    fix d assume "d \<in> set (combined_collection s')"
    then obtain b t where bt: "(b, t) \<in> set totals" and d: "d = chart_doc (b, t)"
      by (auto simp: s')
    from dist bt have "map_of totals b = Some t" by simp
    then have "t = bucket_total b ?fs"
      using accumulate_totals_total [OF totals, of b] by (simp add: dict_get_def bucket_total_def)
    then show "chart_category d = chart_id d
            \<and> chart_value d = py_round2 (bucket_total (chart_id d) ?fs)"
      by (simp add: d chart_doc_def)
  qed
  have "chart_id ` set (combined_collection s') = fst ` set totals"
    by (simp add: s' image_image chart_doc_def)
  then show "chart_id ` set (combined_collection s')
          = {b. \<exists>f\<in>set ?fs. renamed (fst f) = Some b}"
    using accumulate_totals_keys [OF totals] by simp
next
  assume "\<forall>f\<in>set (source_fields (categorized_collection s) (manual_collection s)).
          snd f \<noteq> Some NotNumeric"
  from accumulate_totals_returns [OF this, of "[]"]
  show "\<exists>s'. update_combined_transactions s = (s', Inr ())"
    by (auto simp: update_combined_transactions_eq category_totals_fields)
next
  show "category_totals categorized manual
        = accumulate_totals (filter in_table (source_fields categorized manual)) []"
    by (simp add: category_totals_fields accumulate_totals_in_table)
next
  show "combined_collection (fst (update_combined_transactions food_state))
        = [\<lparr>chart_id = ''Food'', chart_category = ''Food'', chart_value = 150\<rparr>]"
    by (simp add: update_combined_transactions_def food_state_def category_totals_def
          accumulate_totals_step renamed_def category_mapping_def py_float_def dict_get_def
          float_defs)
qed

theorem combined_totals_witness:
  "update_combined_transactions food_state
     = (food_state\<lparr>combined_collection :=
          [\<lparr>chart_id = ''Food'', chart_category = ''Food'', chart_value = 150\<rparr>]\<rparr>, Inr ())
   \<and> py_round2 (bucket_total ''Food''
        (source_fields (categorized_collection food_state) (manual_collection food_state))) = 150
   \<and> {b. \<exists>f\<in>set (source_fields (categorized_collection food_state) (manual_collection food_state)).
             renamed (fst f) = Some b} = {''Food''}"
proof -
  have run: "update_combined_transactions food_state
     = (food_state\<lparr>combined_collection :=
          [\<lparr>chart_id = ''Food'', chart_category = ''Food'', chart_value = 150\<rparr>]\<rparr>, Inr ())"
    by (simp add: update_combined_transactions_def food_state_def category_totals_def
          accumulate_totals_step renamed_def category_mapping_def py_float_def dict_get_def
          float_defs)
  have numeric: "\<forall>f\<in>set (source_fields (categorized_collection food_state) (manual_collection food_state)).
          snd f \<noteq> Some NotNumeric"
    by (simp add: source_fields_def food_state_def)
  from combined_totals
         [of food_state "food_state\<lparr>combined_collection :=
          [\<lparr>chart_id = ''Food'', chart_category = ''Food'', chart_value = 150\<rparr>]\<rparr>"]
       run numeric
  show ?thesis by simp
qed

text \<open>
  C8 as stated fails: one categorized amount 10.004 gives the stored total 10,
  which is not the sum of the amounts, the float 10.004.
\<close>

theorem combined_totals_rounding_counterexample:
  "combined_collection (fst (update_combined_transactions rounding_state))
     = [\<lparr>chart_id = ''Shopping'', chart_category = ''Shopping'', chart_value = 10\<rparr>]
   \<and> bucket_total ''Shopping''
        (source_fields (categorized_collection rounding_state) (manual_collection rounding_state))
       = to_double (10004 / 1000)
   \<and> to_double (10004 / 1000) \<noteq> 10"
proof -
  have dbl: "to_double (10004 / 1000) = 5631751334026805 / 562949953421312"
    by (simp add: float_defs)
  have run: "combined_collection (fst (update_combined_transactions rounding_state))
     = [\<lparr>chart_id = ''Shopping'', chart_category = ''Shopping'', chart_value = 10\<rparr>]"
    unfolding rounding_state_def rounding_docs_def dbl
    by (simp add: update_combined_transactions_def
          category_totals_def accumulate_totals_step renamed_def category_mapping_def
          py_float_def dict_get_def float_defs)
  have total: "bucket_total ''Shopping''
        (source_fields (categorized_collection rounding_state) (manual_collection rounding_state))
       = 5631751334026805 / 562949953421312"
    unfolding rounding_state_def rounding_docs_def dbl
    by (simp add: bucket_total_def bucket_amounts_def source_fields_def
          renamed_def category_mapping_def amount_or_zero_def py_float_def float_defs)
  show ?thesis
    unfolding run total dbl by simp
qed

section \<open>Ingestion: results\<close>

lemma is_digit_not_sep: "is_digit c \<Longrightarrow> c \<noteq> CHR '','' \<and> c \<noteq> CHR ''.''"
  by (auto simp: is_digit_def ascii_digits_def)

lemma remove_commas_digits: "list_all is_digit ds \<Longrightarrow> remove_commas ds = ds"
  unfolding remove_commas_def
  by (induction ds) (auto dest: is_digit_not_sep)

lemma list_all_takeWhile: "list_all P (takeWhile P xs)"
  by (induction xs) auto

lemma py_float_str_digits:
  "list_all is_digit ds \<Longrightarrow> ds \<noteq> [] \<Longrightarrow> \<exists>a. py_float_str ds = Inr a"
proof -
  assume ds: "list_all is_digit ds" "ds \<noteq> []"
  then have tw: "takeWhile is_digit ds = ds" and dw: "dropWhile is_digit ds = []"
    by (simp_all add: list_all_iff)
  show ?thesis
    unfolding py_float_str_def Let_def tw dw using ds(2) by simp
qed

lemma py_float_str_dot:
  assumes "list_all is_digit d1" "d1 \<noteq> []" "list_all is_digit d2"
  shows "\<exists>a. py_float_str (d1 @ CHR ''.'' # d2) = Inr a"
proof -
  have nd: "\<not> is_digit (CHR ''.'')" using is_digit_not_sep by blast
  from assms(1) have tw: "takeWhile is_digit (d1 @ CHR ''.'' # d2) = d1"
    by (simp add: takeWhile_append2 list_all_iff nd)
  from assms(1) have dw: "dropWhile is_digit (d1 @ CHR ''.'' # d2) = CHR ''.'' # d2"
    by (simp add: dropWhile_append2 list_all_iff nd)
  show ?thesis
    unfolding py_float_str_def Let_def tw dw using assms(2,3) by simp
qed

lemma match_number_float:
  assumes "match_number s = Some g"
  shows "remove_commas g \<noteq> [] \<and> (\<exists>a. py_float_str (remove_commas g) = Inr a)"
proof -
  let ?d1 = "takeWhile is_digit s"
  have d1: "list_all is_digit ?d1" by (rule list_all_takeWhile)
  from assms have ne: "?d1 \<noteq> []"
    by (auto simp: match_number_def Let_def split: if_splits)
  have rc_d1: "remove_commas ?d1 = ?d1" by (rule remove_commas_digits [OF d1])
  from assms ne consider
      (plain) "g = ?d1"
    | (sep) c cs where "g = ?d1 @ [c] @ takeWhile is_digit cs" "c = CHR '','' \<or> c = CHR ''.''"
    by (auto simp: match_number_def Let_def split: if_splits list.splits)
  then show ?thesis
  proof cases
    case plain
    with py_float_str_digits [OF d1 ne] ne rc_d1 show ?thesis by simp
  next
    case (sep c cs)
    let ?d2 = "takeWhile is_digit cs"
    have d2: "list_all is_digit ?d2" by (rule list_all_takeWhile)
    have rc_d2: "remove_commas ?d2 = ?d2" by (rule remove_commas_digits [OF d2])
    have rc: "remove_commas g = remove_commas ?d1 @ remove_commas [c] @ remove_commas ?d2"
      by (simp add: sep(1) remove_commas_def)
    from sep(2) show ?thesis
    proof
      assume "c = CHR '',''"
      then have "remove_commas g = ?d1 @ ?d2"
        by (simp add: rc rc_d1 rc_d2) (simp add: remove_commas_def)
      moreover have "list_all is_digit (?d1 @ ?d2)" using d1 d2 by simp
      ultimately show ?thesis using py_float_str_digits [of "?d1 @ ?d2"] ne by simp
    next
      assume "c = CHR ''.''"
      then have "remove_commas g = ?d1 @ CHR ''.'' # ?d2"
        by (simp add: rc rc_d1 rc_d2) (simp add: remove_commas_def)
      with py_float_str_dot [OF d1 ne d2] show ?thesis by simp
    qed
  qed
qed

lemma money_search_match: "money_search s = Some g \<Longrightarrow> \<exists>t. match_number t = Some g"
proof (induction s)
  case Nil
  then show ?case by (auto simp: money_match_at_def split: option.splits)
next
  case (Cons c cs)
  then show ?case by (auto simp: money_match_at_def split: option.splits)
qed

lemma parsed_amount_is_float:
  "\<exists>a. (if fst (parse_transaction_details body) \<noteq> []
         then py_float_str (fst (parse_transaction_details body)) else Inr 0) = Inr a"
proof (cases "money_search body")
  case None
  then have "fst (parse_transaction_details body) = ''0''"
    by (simp add: parse_transaction_details_def Let_def)
  moreover have "py_float_str ''0'' = Inr 0"
    by (simp add: py_float_str_def is_digit_def ascii_digits_def digits_value_def digit_val_def
          to_double_def)
  ultimately show ?thesis by simp
next
  case (Some g)
  then have amount: "fst (parse_transaction_details body) = remove_commas g"
    by (simp add: parse_transaction_details_def Let_def)
  from money_search_match [OF Some] obtain t where "match_number t = Some g" ..
  from match_number_float [OF this] show ?thesis by (simp add: amount)
qed

lemma insert_only_refl: "insert_only xs xs"
  by (simp add: insert_only_def)

lemma insert_only_trans:
  assumes "insert_only xs ys" "insert_only ys zs"
  shows "insert_only xs zs"
proof -
  from assms(1) obtain as where as: "ys = xs @ as" "distinct (map doc_id as)"
      "set (map doc_id as) \<inter> set (map doc_id xs) = {}"
    unfolding insert_only_def by blast
  from assms(2) obtain bs where bs: "zs = ys @ bs" "distinct (map doc_id bs)"
      "set (map doc_id bs) \<inter> set (map doc_id ys) = {}"
    unfolding insert_only_def by blast
  have "zs = xs @ (as @ bs)" using as(1) bs(1) by simp
  moreover have "distinct (map doc_id (as @ bs))"
    using as(2) bs(2,3) as(1) by auto
  moreover have "set (map doc_id (as @ bs)) \<inter> set (map doc_id xs) = {}"
    using as(3) bs(3) as(1) by auto
  ultimately show ?thesis unfolding insert_only_def by blast
qed

lemma insert_only_upsert:
  "doc_id doc = i \<Longrightarrow> insert_only coll (update_one_setOnInsert i doc coll)"
  by (auto simp: insert_only_def update_one_setOnInsert_def)

lemma insert_only_distinct:
  "insert_only old new \<Longrightarrow> distinct (map doc_id old) \<Longrightarrow> distinct (map doc_id new)"
  unfolding insert_only_def by (elim exE conjE) (simp, blast)

lemma insert_only_keeps:
  "insert_only old new \<Longrightarrow> d \<in> set new \<Longrightarrow> doc_id d \<in> set (map doc_id old) \<Longrightarrow> d \<in> set old"
  unfolding insert_only_def by (elim exE conjE) (simp, blast)

lemma upsert_ids:
  "doc_id doc = i \<Longrightarrow> doc_id ` set (update_one_setOnInsert i doc coll) = insert i (doc_id ` set coll)"
  by (auto simp: update_one_setOnInsert_def)

lemma pass_effect_refl: "pass_effect s s"
  by (simp add: pass_effect_def insert_only_refl)

lemma pass_effect_trans:
  assumes "pass_effect s t" "pass_effect t u"
  shows "pass_effect s u"
  using assms unfolding pass_effect_def
  by (auto intro: insert_only_trans)

lemma classify_transaction_returns:
  "\<exists>category. classify_transaction model body transaction_type = Inr category"
proof (cases model)
  case None
  then show ?thesis by (simp add: classify_transaction_def)
next
  case (Some predict)
  then show ?thesis
    by (cases "predict (clean_text body)")
       (simp_all add: classify_transaction_def try_except_def)
qed

lemma process_single_sms_skipped:
  "skipped (body_of sms) \<Longrightarrow> process_single_sms model now s sms = (s, Inr False)"
  by (simp add: process_single_sms_def body_of_def)

lemma process_single_sms_stored:
  assumes "\<not> skipped (body_of sms)"
  shows "\<exists>amount recipient transaction_type category.
           process_single_sms model now s sms
             = (save_transaction now s sms amount recipient transaction_type category (body_of sms),
                Inr True)"
proof -
  obtain amount recipient ty where parse: "parse_transaction_details (body_of sms) = (amount, recipient, ty)"
    by (cases "parse_transaction_details (body_of sms)")
  have "fst (parse_transaction_details (body_of sms)) = amount"
    by (simp add: parse)
  with parsed_amount_is_float [of "body_of sms"] obtain a
    where a: "(if amount \<noteq> [] then py_float_str amount else Inr 0) = Inr a"
    by auto
  from classify_transaction_returns obtain category
    where c: "classify_transaction model (body_of sms) ty = Inr category" by blast
  have "process_single_sms model now s sms
      = (save_transaction now s sms a recipient ty category (body_of sms), Inr True)"
    using assms parse a c
    by (simp add: process_single_sms_def body_of_def [symmetric])
  then show ?thesis by blast
qed

lemma save_transaction_effect:
  "raw_collection (save_transaction now s sms a r ty c b) = raw_collection s
   \<and> manual_collection (save_transaction now s sms a r ty c b) = manual_collection s
   \<and> combined_collection (save_transaction now s sms a r ty c b) = combined_collection s
   \<and> processed_ids (save_transaction now s sms a r ty c b) = processed_ids s
   \<and> insert_only (processed_collection s) (processed_collection (save_transaction now s sms a r ty c b))
   \<and> insert_only (categorized_collection s) (categorized_collection (save_transaction now s sms a r ty c b))
   \<and> stored_ids (save_transaction now s sms a r ty c b) = insert (sms_id sms) (stored_ids s)"
  by (simp add: save_transaction_def Let_def insert_only_upsert stored_ids_def upsert_ids)

lemma stored_step_effect:
  "pass_effect s
     ((save_transaction now s sms a r ty c b)
        \<lparr>processed_ids := insert (sms_id sms) (processed_ids (save_transaction now s sms a r ty c b))\<rparr>)"
  using save_transaction_effect [of now s sms a r ty c b]
  by (auto simp: pass_effect_def stored_ids_def)

lemma new_sms_loop_effect:
  "new_sms_loop model now xs s = (s', r) \<Longrightarrow>
   pass_effect s s' \<and> combined_collection s' = combined_collection s \<and> r = Inr ()
   \<and> (\<forall>x\<in>set xs. \<not> skipped (body_of x) \<longrightarrow> sms_id x \<in> processed_ids s')"
proof (induction xs arbitrary: s)
  case Nil
  then show ?case by (auto simp: pass_effect_refl)
next
  case (Cons x xs)
  show ?case
  proof (cases "skipped (body_of x)")
    case True
    with Cons.prems have "new_sms_loop model now xs s = (s', r)"
      by (simp add: process_single_sms_skipped)
    from Cons.IH [OF this] True show ?thesis by simp
  next
    case False
    from process_single_sms_stored [OF False, of model "now (sms_id x)" s]
    obtain a rc ty c where step: "process_single_sms model (now (sms_id x)) s x
        = (save_transaction (now (sms_id x)) s x a rc ty c (body_of x), Inr True)" by blast
    let ?s1 = "save_transaction (now (sms_id x)) s x a rc ty c (body_of x)"
    let ?s2 = "?s1\<lparr>processed_ids := insert (sms_id x) (processed_ids ?s1)\<rparr>"
    from Cons.prems step have rest: "new_sms_loop model now xs ?s2 = (s', r)" by simp
    have e1: "pass_effect s ?s2" by (rule stored_step_effect)
    from Cons.IH [OF rest] have e2: "pass_effect ?s2 s'"
      and comb: "combined_collection s' = combined_collection ?s2" and r: "r = Inr ()"
      and marked: "\<forall>y\<in>set xs. \<not> skipped (body_of y) \<longrightarrow> sms_id y \<in> processed_ids s'"
      by simp_all
    from e2 have "sms_id x \<in> processed_ids s'" by (auto simp: pass_effect_def)
    moreover have "combined_collection ?s2 = combined_collection s"
      using save_transaction_effect [of "now (sms_id x)" s x a rc ty c "body_of x"] by simp
    ultimately show ?thesis
      using pass_effect_trans [OF e1 e2] comb r marked by simp
  qed
qed

lemma new_sms_loop_all_skipped:
  "\<forall>x\<in>set xs. skipped (body_of x) \<Longrightarrow> new_sms_loop model now xs s = (s, Inr ())"
  by (induction xs) (simp_all add: process_single_sms_skipped)

lemma sms_messages_loop_effect:
  "sms_messages_loop model now xs flag s = ((s', flag'), r) \<Longrightarrow>
   pass_effect s s' \<and> combined_collection s' = combined_collection s \<and> r = Inr ()"
proof (induction xs arbitrary: s flag)
  case Nil
  then show ?case by (auto simp: pass_effect_refl)
next
  case (Cons x xs)
  show ?case
  proof (cases "skipped (body_of x)")
    case True
    with Cons.prems have "sms_messages_loop model now xs flag s = ((s', flag'), r)"
      by (simp add: process_single_sms_skipped)
    from Cons.IH [OF this] show ?thesis by simp
  next
    case False
    from process_single_sms_stored [OF False, of model "now (sms_id x)" s]
    obtain a rc ty c where step: "process_single_sms model (now (sms_id x)) s x
        = (save_transaction (now (sms_id x)) s x a rc ty c (body_of x), Inr True)" by blast
    let ?s1 = "save_transaction (now (sms_id x)) s x a rc ty c (body_of x)"
    let ?s2 = "?s1\<lparr>processed_ids := insert (sms_id x) (processed_ids ?s1)\<rparr>"
    from Cons.prems step have rest: "sms_messages_loop model now xs True ?s2 = ((s', flag'), r)"
      by simp
    have e1: "pass_effect s ?s2" by (rule stored_step_effect)
    from Cons.IH [OF rest] have e2: "pass_effect ?s2 s'"
      and comb: "combined_collection s' = combined_collection ?s2" and r: "r = Inr ()"
      by simp_all
    have "combined_collection ?s2 = combined_collection s"
      using save_transaction_effect [of "now (sms_id x)" s x a rc ty c "body_of x"] by simp
    then show ?thesis
      using pass_effect_trans [OF e1 e2] comb r by simp
  qed
qed

lemma update_combined_transactions_effect:
  "update_combined_transactions s = (s', r) \<Longrightarrow>
   pass_effect s s' \<and> processed_ids s' = processed_ids s
   \<and> processed_collection s' = processed_collection s
   \<and> categorized_collection s' = categorized_collection s"
  by (auto simp: update_combined_transactions_eq pass_effect_def insert_only_refl stored_ids_def
           split: sum.splits)

lemma mark_effect: "pass_effect s (s\<lparr>processed_ids := processed_ids s \<union> A\<rparr>)"
  by (auto simp: pass_effect_def insert_only_refl stored_ids_def)

lemma process_new_data_effect:
  assumes "process_new_data model now s = (s', r)"
  shows "pass_effect s s' \<and> set (map manual_id (manual_collection s)) \<subseteq> processed_ids s'"
proof -
  let ?new = "set (map manual_id (manual_collection s)) - processed_ids s"
  obtain s1 r1 where phase1:
    "(if ?new \<noteq> {} then update_combined_transactions (s\<lparr>processed_ids := processed_ids s \<union> ?new\<rparr>)
      else (s, Inr ())) = (s1, r1)"
    by (cases "if ?new \<noteq> {} then update_combined_transactions (s\<lparr>processed_ids := processed_ids s \<union> ?new\<rparr>)
      else (s, Inr ())")
  have e1: "pass_effect s s1" and m1: "set (map manual_id (manual_collection s)) \<subseteq> processed_ids s1"
  proof -
    show "pass_effect s s1"
    proof (cases "?new = {}")
      case True
      with phase1 show ?thesis by (simp add: pass_effect_refl)
    next
      case False
      with phase1 have "update_combined_transactions (s\<lparr>processed_ids := processed_ids s \<union> ?new\<rparr>) = (s1, r1)"
        by simp
      from update_combined_transactions_effect [OF this] mark_effect [of s ?new]
      show ?thesis by (blast intro: pass_effect_trans)
    qed
    show "set (map manual_id (manual_collection s)) \<subseteq> processed_ids s1"
    proof (cases "?new = {}")
      case True
      with phase1 show ?thesis by auto
    next
      case False
      with phase1 have "update_combined_transactions (s\<lparr>processed_ids := processed_ids s \<union> ?new\<rparr>) = (s1, r1)"
        by simp
      from update_combined_transactions_effect [OF this] show ?thesis by auto
    qed
  qed
  from assms have unf:
    "(case (s1, r1) of
        (s1, Inl e) \<Rightarrow> (s1, Inl e)
      | (s1, Inr u) \<Rightarrow>
          (if filter (\<lambda>sms. sms_id sms \<notin> processed_ids s1) (raw_collection s1) \<noteq> [] then
             (case new_sms_loop model now
                     (filter (\<lambda>sms. sms_id sms \<notin> processed_ids s1) (raw_collection s1)) s1 of
                (s2, Inl e) \<Rightarrow> (s2, Inl e)
              | (s2, Inr u2) \<Rightarrow>
                  (case update_combined_transactions s2 of
                     (s3, Inl e) \<Rightarrow> (s3, Inl e)
                   | (s3, Inr u3) \<Rightarrow>
                       (s3, Inr (card ?new
                          + length (filter (\<lambda>sms. sms_id sms \<notin> processed_ids s1) (raw_collection s1))))))
           else (s1, Inr (card ?new
                          + length (filter (\<lambda>sms. sms_id sms \<notin> processed_ids s1) (raw_collection s1))))))
     = (s', r)"
    unfolding process_new_data_def Let_def phase1 .
  have "pass_effect s1 s'"
  proof (cases r1)
    case (Inl e)
    with unf have "s' = s1" by simp
    then show ?thesis by (simp add: pass_effect_refl)
  next
    case (Inr u)
    let ?sms = "filter (\<lambda>sms. sms_id sms \<notin> processed_ids s1) (raw_collection s1)"
    show ?thesis
    proof (cases "?sms = []")
      case True
      with unf Inr have "s' = s1" by simp
      then show ?thesis by (simp add: pass_effect_refl)
    next
      case False
      obtain s2 r2 where loop: "new_sms_loop model now ?sms s1 = (s2, r2)"
        by (cases "new_sms_loop model now ?sms s1")
      from new_sms_loop_effect [OF loop] have e2: "pass_effect s1 s2" and r2: "r2 = Inr ()"
        by simp_all
      obtain s3 r3 where upd: "update_combined_transactions s2 = (s3, r3)"
        by (cases "update_combined_transactions s2")
      from update_combined_transactions_effect [OF upd] have e3: "pass_effect s2 s3" by simp
      from unf Inr False loop r2 upd have "s' = s3"
        by (auto split: sum.splits)
      with e2 e3 show ?thesis by (blast intro: pass_effect_trans)
    qed
  qed
  with e1 have "pass_effect s s'" by (rule pass_effect_trans)
  moreover from \<open>pass_effect s1 s'\<close> m1
  have "set (map manual_id (manual_collection s)) \<subseteq> processed_ids s'"
    by (auto simp: pass_effect_def)
  ultimately show ?thesis by simp
qed

lemma process_sms_messages_effect:
  assumes "process_sms_messages model now s = (s', r)"
  shows "pass_effect s s'"
proof -
  let ?sms = "filter (\<lambda>sms. sms_id sms \<notin> processed_ids s) (raw_collection s)"
  obtain s1 flag r1 where loop: "sms_messages_loop model now ?sms False s = ((s1, flag), r1)"
    by (cases "sms_messages_loop model now ?sms False s") auto
  from sms_messages_loop_effect [OF loop] have e1: "pass_effect s s1" and r1: "r1 = Inr ()"
    by simp_all
  show ?thesis
  proof (cases flag)
    case True
    with assms loop r1 have "update_combined_transactions s1 = (s', r)"
      by (simp add: process_sms_messages_def)
    from update_combined_transactions_effect [OF this] e1 show ?thesis
      by (blast intro: pass_effect_trans)
  next
    case False
    with assms loop r1 have "s' = s1" by (simp add: process_sms_messages_def)
    with e1 show ?thesis by simp
  qed
qed

lemma process_manual_entries_effect:
  assumes "process_manual_entries s = (s', r)"
  shows "pass_effect s s' \<and> set (map manual_id (manual_collection s)) \<subseteq> processed_ids s'"
proof -
  let ?s0 = "s\<lparr>processed_ids := processed_ids s \<union> set (map manual_id (manual_collection s))\<rparr>"
  from assms have "update_combined_transactions ?s0 = (s', r)"
    by (simp add: process_manual_entries_def)
  from update_combined_transactions_effect [OF this]
       mark_effect [of s "set (map manual_id (manual_collection s))"]
  show ?thesis by (auto intro: pass_effect_trans)
qed

lemma dedup_invariant_stored:
  "dedup_invariant s \<longleftrightarrow>
     stored_ids s \<subseteq> processed_ids s \<and> set (map manual_id (manual_collection s)) \<subseteq> processed_ids s"
  unfolding dedup_invariant_def stored_ids_def by blast

lemma pass_effect_invariant:
  "pass_effect s s' \<Longrightarrow> dedup_invariant s \<Longrightarrow> dedup_invariant s'"
  unfolding pass_effect_def dedup_invariant_stored by (elim conjE) (simp, blast)

lemma update_combined_transactions_again:
  assumes "update_combined_transactions s = (s', Inr u)"
  shows "update_combined_transactions s' = (s', Inr ())"
proof -
  from assms obtain totals
    where t: "category_totals (categorized_collection s) (manual_collection s) = Inr totals"
      and s': "s' = s\<lparr>combined_collection := map chart_doc totals\<rparr>"
    by (auto simp: update_combined_transactions_eq split: sum.splits)
  show ?thesis
    by (simp add: update_combined_transactions_eq s' t)
qed

lemma settled_pass:
  assumes "settled s"
  shows "process_new_data model now s
     = (s, Inr (length (filter (\<lambda>sms. sms_id sms \<notin> processed_ids s) (raw_collection s))))"
proof -
  let ?new = "set (map manual_id (manual_collection s)) - processed_ids s"
  let ?sms = "filter (\<lambda>sms. sms_id sms \<notin> processed_ids s) (raw_collection s)"
  from assms have new: "?new = {}" by (auto simp: settled_def)
  from assms have "\<forall>x\<in>set ?sms. skipped (body_of x)" by (auto simp: settled_def)
  then have loop: "new_sms_loop model now ?sms s = (s, Inr ())"
    by (rule new_sms_loop_all_skipped)
  have upd: "update_combined_transactions s = (s, Inr ())" if "?sms \<noteq> []"
  proof -
    from that obtain x where "x \<in> set ?sms" by (cases ?sms) auto
    then have "\<exists>x\<in>set (raw_collection s). sms_id x \<notin> processed_ids s" by auto
    with assms show ?thesis by (simp add: settled_def)
  qed
  show ?thesis
  proof (cases "?sms = []")
    case True
    then show ?thesis
      unfolding process_new_data_def Let_def new by simp
  next
    case False
    then show ?thesis
      unfolding process_new_data_def Let_def new by (simp add: loop upd)
  qed
qed

lemma completed_pass_settled:
  assumes "process_new_data model now s = (s1, Inr n)"
  shows "settled s1"
proof -
  let ?new = "set (map manual_id (manual_collection s)) - processed_ids s"
  obtain sa ra where phase1:
    "(if ?new \<noteq> {} then update_combined_transactions (s\<lparr>processed_ids := processed_ids s \<union> ?new\<rparr>)
      else (s, Inr ())) = (sa, ra)"
    by (cases "if ?new \<noteq> {} then update_combined_transactions (s\<lparr>processed_ids := processed_ids s \<union> ?new\<rparr>)
      else (s, Inr ())")
  let ?sms = "filter (\<lambda>sms. sms_id sms \<notin> processed_ids sa) (raw_collection sa)"
  from assms have unf:
    "(case (sa, ra) of
        (s1, Inl e) \<Rightarrow> (s1, Inl e)
      | (s1, Inr u) \<Rightarrow>
          (if filter (\<lambda>sms. sms_id sms \<notin> processed_ids s1) (raw_collection s1) \<noteq> [] then
             (case new_sms_loop model now
                     (filter (\<lambda>sms. sms_id sms \<notin> processed_ids s1) (raw_collection s1)) s1 of
                (s2, Inl e) \<Rightarrow> (s2, Inl e)
              | (s2, Inr u2) \<Rightarrow>
                  (case update_combined_transactions s2 of
                     (s3, Inl e) \<Rightarrow> (s3, Inl e)
                   | (s3, Inr u3) \<Rightarrow>
                       (s3, Inr (card ?new
                          + length (filter (\<lambda>sms. sms_id sms \<notin> processed_ids s1) (raw_collection s1))))))
           else (s1, Inr (card ?new
                          + length (filter (\<lambda>sms. sms_id sms \<notin> processed_ids s1) (raw_collection s1))))))
     = (s1, Inr n)"
    unfolding process_new_data_def Let_def phase1 .
  have manual_a: "manual_collection sa = manual_collection s"
    and marked_a: "set (map manual_id (manual_collection s)) \<subseteq> processed_ids sa"
  proof -
    show "manual_collection sa = manual_collection s"
    proof (cases "?new = {}")
      case True
      with phase1 show ?thesis by simp
    next
      case False
      with phase1 have "update_combined_transactions (s\<lparr>processed_ids := processed_ids s \<union> ?new\<rparr>) = (sa, ra)"
        by simp
      from update_combined_transactions_effect [OF this] show ?thesis
        by (simp add: pass_effect_def)
    qed
    show "set (map manual_id (manual_collection s)) \<subseteq> processed_ids sa"
    proof (cases "?new = {}")
      case True
      with phase1 show ?thesis by auto
    next
      case False
      with phase1 have "update_combined_transactions (s\<lparr>processed_ids := processed_ids s \<union> ?new\<rparr>) = (sa, ra)"
        by simp
      from update_combined_transactions_effect [OF this] show ?thesis by auto
    qed
  qed
  from unf obtain u where ra: "ra = Inr u" by (cases ra) auto
  show ?thesis
  proof (cases "?sms = []")
    case True
    with unf ra have s1: "s1 = sa" by simp
    from True have "\<forall>x\<in>set (raw_collection sa). sms_id x \<in> processed_ids sa"
      by (auto simp: filter_empty_conv)
    with manual_a marked_a show ?thesis
      by (auto simp: settled_def s1)
  next
    case False
    obtain sb rb where loop: "new_sms_loop model now ?sms sa = (sb, rb)"
      by (cases "new_sms_loop model now ?sms sa")
    from new_sms_loop_effect [OF loop]
    have eb: "pass_effect sa sb" and rb: "rb = Inr ()"
      and marked: "\<forall>x\<in>set ?sms. \<not> skipped (body_of x) \<longrightarrow> sms_id x \<in> processed_ids sb"
      by simp_all
    from unf ra False loop rb obtain u3 where upd: "update_combined_transactions sb = (s1, Inr u3)"
      by (auto split: sum.splits prod.splits)
    from update_combined_transactions_effect [OF upd]
    have e1: "pass_effect sb s1" and ids1: "processed_ids s1 = processed_ids sb" by simp_all
    have raw1: "raw_collection s1 = raw_collection sa"
      and manual1: "manual_collection s1 = manual_collection s"
      and sub: "processed_ids sa \<subseteq> processed_ids s1"
      using eb e1 manual_a by (auto simp: pass_effect_def)
    have "skipped (body_of x)" if "x \<in> set (raw_collection s1)" "sms_id x \<notin> processed_ids s1" for x
    proof (rule ccontr)
      assume ns: "\<not> skipped (body_of x)"
      from that sub raw1 have "x \<in> set ?sms" by auto
      with marked ns have "sms_id x \<in> processed_ids sb" by blast
      with that(2) ids1 show False by simp
    qed
    moreover have "update_combined_transactions s1 = (s1, Inr ())"
      by (rule update_combined_transactions_again [OF upd])
    moreover have "set (map manual_id (manual_collection s1)) \<subseteq> processed_ids s1"
      using manual1 marked_a sub by auto
    ultimately show ?thesis by (simp add: settled_def)
  qed
qed

lemma skipped_hello: "skipped ''Hello, see you at 5''"
  by code_simp

lemma not_skipped_sent: "\<not> skipped ''Rs. 1,500 sent to John Doe''"
  by code_simp

lemma parse_sent:
  "parse_transaction_details ''Rs. 1,500 sent to John Doe'' = (''1500'', ''John Doe'', ''debited'')"
  by code_simp

lemma float_1500: "py_float_str ''1500'' = Inr 1500"
  by (simp add: py_float_str_def is_digit_def ascii_digits_def digits_value_def digit_val_def
        float_defs)

lemma float_total_1750:
  "float_add 0 1500 = 1500" "float_add 1500 250 = 1750" "py_round2 1750 = 1750"
  by (simp_all add: float_defs)

lemma first_pass:
  "process_new_data sample_model sample_clock ingest_state = (ingest_state_after, Inr 3)"
  by (simp add: process_new_data_def ingest_state_def ingest_state_after_def sample_model_def
        sample_clock_def Let_def update_combined_transactions_def category_totals_def
        accumulate_totals_step renamed_def category_mapping_def py_float_def dict_get_def
        process_single_sms_def skipped_hello not_skipped_sent parse_sent float_1500
        classify_transaction_def try_except_def lower_def
        save_transaction_def update_one_setOnInsert_def float_total_1750 insert_commute)

lemma skipped_offer: "skipped ''Hurry! Offer: Rs. 50 cashback credited''"
  by code_simp

lemma second_pass:
  "process_new_data None other_clock ingest_state_after = (ingest_state_after, Inr 1)"
  by (simp add: process_new_data_def ingest_state_def ingest_state_after_def Let_def
        update_combined_transactions_def category_totals_def
        accumulate_totals_step renamed_def category_mapping_def py_float_def dict_get_def
        process_single_sms_def skipped_hello float_total_1750)

text \<open>
  A message with the amount 2.675, from end to end: the amount is stored as the
  double below 2.675, and the combined collection holds the double nearest to
  2.67, as in Python.
\<close>

lemma not_skipped_tie: "\<not> skipped ''Rs. 2.675 debited''"
  by code_simp

lemma parse_tie:
  "parse_transaction_details ''Rs. 2.675 debited'' = (''2.675'', ''N/A'', ''debited'')"
  by code_simp

lemma float_tie: "py_float_str ''2.675'' = Inr (3011782250804019 / 1125899906842624)"
  by (simp add: py_float_str_def is_digit_def ascii_digits_def digits_value_def digit_val_def
        float_defs)

lemma round_tie:
  "float_add 0 (3011782250804019 / 1125899906842624) = 3011782250804019 / 1125899906842624"
  "py_round2 (3011782250804019 / 1125899906842624) = to_double (267 / 100)"
  "to_double (267 / 100) < 267 / 100"
  by (simp_all add: float_defs)

lemma tie_amount_end_to_end:
  "map Amount (categorized_collection (fst (process_new_data sample_model sample_clock tie_state)))
     = [Some (Num (to_double (2675 / 1000)))]
   \<and> combined_collection (fst (process_new_data sample_model sample_clock tie_state))
     = [\<lparr>chart_id = ''Shopping'', chart_category = ''Shopping'',
         chart_value = to_double (267 / 100)\<rparr>]"
proof -
  have dbl: "to_double (2675 / 1000) = 3011782250804019 / 1125899906842624"
    by (simp add: float_defs)
  show ?thesis
    unfolding dbl
    by (simp add: process_new_data_def tie_state_def sample_model_def
        sample_clock_def Let_def update_combined_transactions_def category_totals_def
        accumulate_totals_step renamed_def category_mapping_def py_float_def dict_get_def
        process_single_sms_def not_skipped_tie parse_tie float_tie round_tie
        classify_transaction_def try_except_def lower_def
        save_transaction_def update_one_setOnInsert_def)
qed

text \<open>
  C1. Two passes of \<open>process_new_data\<close> in a row, over raw messages that do not
  change (a pass only reads them), whatever the classifier and the clock of
  each pass are. The second pass changes the stored transactions and the stored
  categorized transactions by insert-if-absent only: ids stay distinct, and
  every id that was stored before the second pass has the document it had, with
  every field. If the first pass returned without an exception, the second pass
  changes nothing at all.
\<close>

theorem ingestion_idempotent:
  assumes first: "process_new_data model1 now1 s = (s1, r1)"
    and second: "process_new_data model2 now2 s1 = (s2, r2)"
  shows "raw_collection s1 = raw_collection s
    \<and> insert_only (processed_collection s1) (processed_collection s2)
    \<and> insert_only (categorized_collection s1) (categorized_collection s2)
    \<and> (distinct (map doc_id (processed_collection s)) \<longrightarrow>
          distinct (map doc_id (processed_collection s2)))
    \<and> (distinct (map doc_id (categorized_collection s)) \<longrightarrow>
          distinct (map doc_id (categorized_collection s2)))
    \<and> (\<forall>d\<in>set (processed_collection s2).
          doc_id d \<in> set (map doc_id (processed_collection s1)) \<longrightarrow> d \<in> set (processed_collection s1))
    \<and> (\<forall>d\<in>set (categorized_collection s2).
          doc_id d \<in> set (map doc_id (categorized_collection s1)) \<longrightarrow> d \<in> set (categorized_collection s1))
    \<and> ((\<exists>n. r1 = Inr n) \<longrightarrow> s2 = s1)"
proof -
  from process_new_data_effect [OF first] have e1: "pass_effect s s1" by simp
  from process_new_data_effect [OF second] have e2: "pass_effect s1 s2" by simp
  from e1 have raw: "raw_collection s1 = raw_collection s"
    and p1: "insert_only (processed_collection s) (processed_collection s1)"
    and c1: "insert_only (categorized_collection s) (categorized_collection s1)"
    by (simp_all add: pass_effect_def)
  from e2 have p2: "insert_only (processed_collection s1) (processed_collection s2)"
    and c2: "insert_only (categorized_collection s1) (categorized_collection s2)"
    by (simp_all add: pass_effect_def)
  have dp: "distinct (map doc_id (processed_collection s2))"
    if "distinct (map doc_id (processed_collection s))"
    using that p1 p2 by (blast intro: insert_only_distinct)
  have dc: "distinct (map doc_id (categorized_collection s2))"
    if "distinct (map doc_id (categorized_collection s))"
    using that c1 c2 by (blast intro: insert_only_distinct)
  have kp: "\<forall>d\<in>set (processed_collection s2).
          doc_id d \<in> set (map doc_id (processed_collection s1)) \<longrightarrow> d \<in> set (processed_collection s1)"
    using insert_only_keeps [OF p2] by blast
  have kc: "\<forall>d\<in>set (categorized_collection s2).
          doc_id d \<in> set (map doc_id (categorized_collection s1)) \<longrightarrow> d \<in> set (categorized_collection s1)"
    using insert_only_keeps [OF c2] by blast
  have same: "s2 = s1" if "\<exists>n. r1 = Inr n"
  proof -
    from that first obtain n where "process_new_data model1 now1 s = (s1, Inr n)" by auto
    then have "settled s1" by (rule completed_pass_settled)
    from settled_pass [OF this, of model2 now2] second show ?thesis by simp
  qed
  from raw p2 c2 dp dc kp kc same show ?thesis by blast
qed

theorem ingestion_idempotent_witness:
  "process_new_data sample_model sample_clock ingest_state = (ingest_state_after, Inr 3)
   \<and> process_new_data None other_clock ingest_state_after = (ingest_state_after, Inr 1)
   \<and> insert_only (processed_collection ingest_state_after) (processed_collection ingest_state_after)
   \<and> insert_only (categorized_collection ingest_state_after) (categorized_collection ingest_state_after)
   \<and> distinct (map doc_id (categorized_collection ingest_state_after))"
  using ingestion_idempotent [OF first_pass second_pass] first_pass second_pass
  by (simp add: ingest_state_def)

lemma reachable_stored:
  "reachable s \<Longrightarrow> stored_ids s \<subseteq> processed_ids s"
proof (induction rule: reachable.induct)
  case (initial raw processed categorized manual combined)
  show ?case
    by (auto simp: stored_ids_def init_state_def initialize_processed_ids_def)
next
  case (raw_arrival s sms)
  then show ?case by (simp add: raw_sms_arrives_def stored_ids_def)
next
  case (manual_arrival s entry)
  then show ?case by (simp add: manual_entry_arrives_def stored_ids_def)
next
  case (new_data s model now)
  obtain s' r where run: "process_new_data model now s = (s', r)"
    by (cases "process_new_data model now s")
  from process_new_data_effect [OF run] new_data.IH show ?case
    unfolding pass_effect_def by (simp add: run) blast
next
  case (sms_messages s model now)
  obtain s' r where run: "process_sms_messages model now s = (s', r)"
    by (cases "process_sms_messages model now s")
  from process_sms_messages_effect [OF run] sms_messages.IH show ?case
    unfolding pass_effect_def by (simp add: run) blast
next
  case (manual_entries s)
  obtain s' r where run: "process_manual_entries s = (s', r)"
    by (cases "process_manual_entries s")
  from process_manual_entries_effect [OF run] manual_entries.IH show ?case
    unfolding pass_effect_def by (simp add: run) blast
qed

lemma ingest_state_reachable: "reachable ingest_state"
proof -
  have "ingest_state
      = manual_entry_arrives
          \<lparr>manual_id = 10, expenseName = Some ''Shopping'', expenseAmount = Some (Num 250)\<rparr>
          (init_state (raw_collection ingest_state) [] [] [] [])"
    by (simp add: ingest_state_def manual_entry_arrives_def init_state_def
          initialize_processed_ids_def)
  then show ?thesis
    by (metis reachable.initial reachable.manual_arrival)
qed

lemma ingest_state_after_reachable: "reachable ingest_state_after"
  using reachable.new_data [OF ingest_state_reachable, of sample_model sample_clock]
  by (simp add: first_pass)

lemma poll_after_manual_arrival:
  "process_sms_messages sample_model sample_clock ingest_state
     = (ingest_state_after\<lparr>processed_ids := {1},
          combined_collection :=
            [\<lparr>chart_id = ''Shopping'', chart_category = ''Shopping'', chart_value = 1750\<rparr>]\<rparr>,
        Inr ())"
  by (simp add: process_sms_messages_def ingest_state_def ingest_state_after_def sample_model_def
        sample_clock_def Let_def update_combined_transactions_def category_totals_def
        accumulate_totals_step renamed_def category_mapping_def py_float_def dict_get_def
        process_single_sms_def skipped_hello not_skipped_sent parse_sent float_1500
        classify_transaction_def try_except_def lower_def
        save_transaction_def update_one_setOnInsert_def float_total_1750)

text \<open>
  C5 (as the code has it). The set of processed ids that \<open>__init__\<close> builds holds
  the ids of all stored transactions, categorized transactions and manual
  entries, and each operation of the pipeline keeps that invariant: every id
  that \<open>process_new_data\<close> or \<open>process_sms_messages\<close> stores is in the set when
  the operation returns. In every reachable state, whatever arrives from
  outside, the set holds the ids of all stored transactions and categorized
  transactions. A manual entry that arrives is outside the set until
  \<open>process_new_data\<close> or \<open>process_manual_entries\<close> runs: each of them restores
  the whole invariant.
\<close>

theorem dedup_invariant_maintained:
  "dedup_invariant (init_state raw processed categorized manual combined)
   \<and> (reachable s \<longrightarrow> stored_ids s \<subseteq> processed_ids s)
   \<and> stored_ids (fst (process_new_data model now s))
        \<subseteq> stored_ids s \<union> processed_ids (fst (process_new_data model now s))
   \<and> stored_ids (fst (process_sms_messages model now s))
        \<subseteq> stored_ids s \<union> processed_ids (fst (process_sms_messages model now s))
   \<and> (stored_ids s \<subseteq> processed_ids s \<longrightarrow> dedup_invariant (fst (process_new_data model now s)))
   \<and> (stored_ids s \<subseteq> processed_ids s \<longrightarrow> dedup_invariant (fst (process_manual_entries s)))
   \<and> (dedup_invariant s \<longrightarrow> dedup_invariant (fst (process_new_data model now s)))
   \<and> (dedup_invariant s \<longrightarrow> dedup_invariant (fst (process_sms_messages model now s)))
   \<and> (dedup_invariant s \<longrightarrow> dedup_invariant (fst (process_manual_entries s)))"
proof (intro conjI impI)
  show "dedup_invariant (init_state raw processed categorized manual combined)"
    by (simp add: dedup_invariant_def init_state_def initialize_processed_ids_def)
next
  assume "reachable s"
  then show "stored_ids s \<subseteq> processed_ids s" by (rule reachable_stored)
next
  obtain s' r where run: "process_new_data model now s = (s', r)"
    by (cases "process_new_data model now s")
  from process_new_data_effect [OF run]
  show "stored_ids (fst (process_new_data model now s))
        \<subseteq> stored_ids s \<union> processed_ids (fst (process_new_data model now s))"
    by (simp add: run pass_effect_def)
next
  obtain s' r where run: "process_sms_messages model now s = (s', r)"
    by (cases "process_sms_messages model now s")
  from process_sms_messages_effect [OF run]
  show "stored_ids (fst (process_sms_messages model now s))
        \<subseteq> stored_ids s \<union> processed_ids (fst (process_sms_messages model now s))"
    by (simp add: run pass_effect_def)
next
  assume stored: "stored_ids s \<subseteq> processed_ids s"
  obtain s' r where run: "process_new_data model now s = (s', r)"
    by (cases "process_new_data model now s")
  from process_new_data_effect [OF run]
  have e: "pass_effect s s'" and m: "set (map manual_id (manual_collection s)) \<subseteq> processed_ids s'"
    by simp_all
  from e stored have "stored_ids s' \<subseteq> processed_ids s'"
    unfolding pass_effect_def by blast
  moreover from e have "manual_collection s' = manual_collection s"
    by (simp add: pass_effect_def)
  ultimately show "dedup_invariant (fst (process_new_data model now s))"
    using m by (simp add: run dedup_invariant_stored)
next
  assume stored: "stored_ids s \<subseteq> processed_ids s"
  obtain s' r where run: "process_manual_entries s = (s', r)"
    by (cases "process_manual_entries s")
  from process_manual_entries_effect [OF run]
  have e: "pass_effect s s'" and m: "set (map manual_id (manual_collection s)) \<subseteq> processed_ids s'"
    by simp_all
  from e stored have "stored_ids s' \<subseteq> processed_ids s'"
    unfolding pass_effect_def by blast
  moreover from e have "manual_collection s' = manual_collection s"
    by (simp add: pass_effect_def)
  ultimately show "dedup_invariant (fst (process_manual_entries s))"
    using m by (simp add: run dedup_invariant_stored)
next
  assume inv: "dedup_invariant s"
  obtain s' r where run: "process_new_data model now s = (s', r)"
    by (cases "process_new_data model now s")
  from process_new_data_effect [OF run] inv
  show "dedup_invariant (fst (process_new_data model now s))"
    by (auto simp: run intro: pass_effect_invariant)
next
  assume inv: "dedup_invariant s"
  obtain s' r where run: "process_sms_messages model now s = (s', r)"
    by (cases "process_sms_messages model now s")
  from process_sms_messages_effect [OF run] inv
  show "dedup_invariant (fst (process_sms_messages model now s))"
    by (auto simp: run intro: pass_effect_invariant)
next
  assume inv: "dedup_invariant s"
  obtain s' r where run: "process_manual_entries s = (s', r)"
    by (cases "process_manual_entries s")
  from process_manual_entries_effect [OF run] inv
  show "dedup_invariant (fst (process_manual_entries s))"
    by (auto simp: run intro: pass_effect_invariant)
qed

theorem dedup_invariant_maintained_witness:
  "reachable ingest_state_after
   \<and> dedup_invariant ingest_state_after
   \<and> stored_ids ingest_state_after \<subseteq> processed_ids ingest_state_after
   \<and> dedup_invariant (fst (process_new_data sample_model sample_clock ingest_state_after))
   \<and> dedup_invariant (fst (process_sms_messages sample_model sample_clock ingest_state_after))
   \<and> dedup_invariant (fst (process_manual_entries ingest_state_after))"
proof -
  have inv: "dedup_invariant ingest_state_after"
    by (simp add: dedup_invariant_def ingest_state_after_def ingest_state_def)
  from dedup_invariant_maintained [of "[]" "[]" "[]" "[]" "[]" ingest_state_after sample_model sample_clock]
       inv ingest_state_after_reachable
  show ?thesis by simp
qed

text \<open>
  C5 as stated fails. After \<open>__init__\<close> on empty stores a manual entry with id
  10 arrives: its id is stored and is not in the set of processed ids.
  \<open>process_sms_messages\<close> then stores and marks message 1 and still leaves id
  10 outside the set.
\<close>

theorem dedup_invariant_manual_arrival_counterexample:
  "reachable ingest_state
   \<and> 10 \<in> set (map manual_id (manual_collection ingest_state))
   \<and> 10 \<notin> processed_ids ingest_state
   \<and> \<not> dedup_invariant ingest_state
   \<and> reachable (fst (process_sms_messages sample_model sample_clock ingest_state))
   \<and> processed_ids (fst (process_sms_messages sample_model sample_clock ingest_state)) = {1}
   \<and> \<not> dedup_invariant (fst (process_sms_messages sample_model sample_clock ingest_state))"
proof -
  have r: "reachable (fst (process_sms_messages sample_model sample_clock ingest_state))"
    by (rule reachable.sms_messages [OF ingest_state_reachable])
  have "\<not> dedup_invariant ingest_state"
    by (simp add: dedup_invariant_def ingest_state_def)
  moreover have "\<not> dedup_invariant (fst (process_sms_messages sample_model sample_clock ingest_state))"
    unfolding poll_after_manual_arrival
    by (simp add: dedup_invariant_def ingest_state_after_def ingest_state_def)
  moreover have "processed_ids (fst (process_sms_messages sample_model sample_clock ingest_state)) = {1}"
    by (simp add: poll_after_manual_arrival)
  moreover have "10 \<in> set (map manual_id (manual_collection ingest_state))"
    and "10 \<notin> processed_ids ingest_state"
    by (simp_all add: ingest_state_def)
  ultimately show ?thesis
    using r ingest_state_reachable by blast
qed

text \<open>
  C2, on the code of \<open>transaction_processor.py\<close>. \<open>process_new_data\<close> and
  \<open>process_sms_messages\<close> add the id of a message only when
  \<open>process_single_sms\<close> returns \<open>True\<close>. A message with no transaction keyword
  (id 2) and a promotional message (id 3) are examined and skipped, their ids
  are not in the set of processed ids after the pass, and the next pass selects
  both again.
\<close>

theorem filtered_message_not_marked:
  "process_new_data model now filtered_state = (filtered_state, Inr 2)
   \<and> process_sms_messages model now filtered_state = (filtered_state, Inr ())
   \<and> 2 \<notin> processed_ids (fst (process_new_data model now filtered_state))
   \<and> 3 \<notin> processed_ids (fst (process_new_data model now filtered_state))
   \<and> filter (\<lambda>sms. sms_id sms \<notin> processed_ids (fst (process_new_data model now filtered_state)))
         (raw_collection (fst (process_new_data model now filtered_state)))
       = raw_collection filtered_state"
proof -
  have run: "process_new_data model now filtered_state = (filtered_state, Inr 2)"
    by (simp add: process_new_data_def filtered_state_def Let_def
          update_combined_transactions_def category_totals_def
          process_single_sms_def skipped_hello skipped_offer)
  have poll: "process_sms_messages model now filtered_state = (filtered_state, Inr ())"
    by (simp add: process_sms_messages_def filtered_state_def
          process_single_sms_def skipped_hello skipped_offer)
  show ?thesis
    by (simp add: run poll) (simp add: filtered_state_def)
qed

end
